theory Spec2Isabelle
  imports Main
begin

section \<open>Values, cancellation handles and the trace of calls\<close>

text \<open>
  The development embeds \<^verbatim>\<open>src/index.js\<close>: \<^verbatim>\<open>createAbortController\<close> and the hook
  \<^verbatim>\<open>useAbortableEffect\<close>. Objects live in explicit stores: cancellation handles in
  \<open>heap\<close> (an address is an index), the reference objects made by \<^verbatim>\<open>useRef\<close> in
  \<open>hooks\<close>. Every call that a claim talks about is appended to \<open>trace\<close>.
\<close>

type_synonym addr = nat

type_synonym listener = nat

text \<open>Values that can stand in a dependency list or be returned by an effect function
  without being a function. \<open>JObj\<close> is a reference to some object (a Promise, say).\<close>

datatype jsval = JUndefined | JNull | JBool bool | JNum int | JStr string | JObj nat

text \<open>A handle is either what \<^verbatim>\<open>new AbortController()\<close> gave or the literal
  \<^verbatim>\<open>mockAbortController\<close>. The record holds the state of the handle together with that of
  its nested \<^verbatim>\<open>signal\<close> object.\<close>

datatype kind = Native | Mock

record controller =
  kind :: kind
  aborted :: bool
  listeners :: "listener list"

text \<open>What a function can be called with: the handle at an address, or the
  \<^verbatim>\<open>signal\<close> object of the handle at that address. They are different objects.\<close>

datatype jsref = ControllerObj addr | SignalObj addr

text \<open>The \<^verbatim>\<open>current\<close> field of a reference object.\<close>

datatype refval = RUndefined | RBool bool | RController addr

text \<open>\<open>TypeError\<close> is what the hook's own code could raise (reading \<^verbatim>\<open>.signal\<close> of
  \<^verbatim>\<open>undefined\<close>); \<open>Thrown\<close> carries what the caller's functions throw.\<close>

datatype exn = TypeError | Thrown string

text \<open>
  The caller's code is the input of the hook. A caller's function is given its argument
  and what it can read (the handles and the reference objects); it answers with the calls
  it makes on handles, in order, and with how it ends. The calls open to it are the ones
  of the handle interface: \<^verbatim>\<open>abort()\<close> on a handle and
  \<^verbatim>\<open>addEventListener\<close>/\<^verbatim>\<open>removeEventListener\<close> on its signal. Writing to
  \<^verbatim>\<open>ref.current\<close> is not among them: only the hook replaces the handle the reference
  points to.
\<close>

datatype uop = CallAbort addr | AddListener addr listener | RemoveListener addr listener

type_synonym view = "controller list \<times> refval list"

text \<open>A cleanup function ends normally (\<open>None\<close>) or throws.\<close>

type_synonym cleanup_fn = "jsref \<Rightarrow> view \<Rightarrow> uop list \<times> string option"

text \<open>What an effect function returns: a function, or anything else.\<close>

datatype retval = RetFunction cleanup_fn | RetOther jsval

text \<open>An effect function throws (\<open>Inl\<close>) or returns (\<open>Inr\<close>).\<close>

type_synonym effect_fn = "jsref \<Rightarrow> view \<Rightarrow> uop list \<times> (string + retval)"

text \<open>The two closures the hook hands to \<^verbatim>\<open>useEffect\<close> as teardown, each with the
  \<^verbatim>\<open>controller\<close> it captured (lines 121 and 124).\<close>

datatype teardown = CustomCleanup cleanup_fn addr | DefaultCleanup addr

text \<open>Who called \<^verbatim>\<open>abort()\<close>: the default teardown of the hook, or the caller's code.\<close>

datatype caller = Binder | User

text \<open>The trace: a handle was constructed by \<^verbatim>\<open>createAbortController\<close>; the effect
  function was called with an argument; a cleanup function was called with an argument;
  \<^verbatim>\<open>abort()\<close> was called on a handle; a listener of a handle's signal was notified.\<close>

datatype event =
    Created addr
  | EffectCall jsref
  | CleanupCall cleanup_fn jsref
  | AbortCall caller addr
  | Notified addr listener

text \<open>A dependency array: the identity of the array object and its elements.\<close>

record deps =
  ident :: nat
  elems :: "jsval list"

text \<open>The state: the handles; the reference objects of the component instance
  (\<^verbatim>\<open>firstRun\<close> is the first, \<^verbatim>\<open>controllerRef\<close> the second); the trace; and what the host
  keeps for the one \<^verbatim>\<open>useEffect\<close> of the hook: whether the component is mounted, the
  dependency list of the last render, the teardown registered, whether the component was
  destroyed.\<close>

record world =
  heap :: "controller list"
  hooks :: "refval list"
  trace :: "event list"
  mounted :: bool
  lastDeps :: "deps option"
  cleanup :: "teardown option"
  destroyed :: bool

definition init :: world where
  "init = \<lparr>heap = [], hooks = [], trace = [], mounted = False, lastDeps = None,
            cleanup = None, destroyed = False\<rparr>"

definition log :: "event \<Rightarrow> world \<Rightarrow> world" where
  "log e w = w\<lparr>trace := trace w @ [e]\<rparr>"

section \<open>The cancellation-handle primitive\<close>

text \<open>Modelled from the spec: the environment's \<^verbatim>\<open>AbortController\<close> constructor, which
  is not part of the repository. A new handle is not aborted and has no listeners.\<close>

definition new_AbortController :: controller where
  "new_AbortController = \<lparr>kind = Native, aborted = False, listeners = []\<rparr>"

text \<open>Modelled from the spec: \<^verbatim>\<open>abort()\<close> of the environment's handle "flips
  \<open>aborted\<close> and notifies observers exactly once (idempotent -- calling it again is a
  no-op)".\<close>

definition native_abort :: "addr \<Rightarrow> world \<Rightarrow> world" where
  "native_abort h w =
     (let c = heap w ! h in
      if aborted c then w
      else w\<lparr>heap := (heap w)[h := c\<lparr>aborted := True\<rparr>],
             trace := trace w @ map (Notified h) (listeners c)\<rparr>)"

text \<open>Modelled from the spec: listener registration of the environment's signal; a
  listener that is already registered is not registered twice.\<close>

definition native_addEventListener :: "addr \<Rightarrow> listener \<Rightarrow> world \<Rightarrow> world" where
  "native_addEventListener h l w =
     (let c = heap w ! h in
      if l \<in> set (listeners c) then w
      else w\<lparr>heap := (heap w)[h := c\<lparr>listeners := listeners c @ [l]\<rparr>]\<rparr>)"

text \<open>Modelled from the spec: removal of a listener from the environment's signal.\<close>

definition native_removeEventListener :: "addr \<Rightarrow> listener \<Rightarrow> world \<Rightarrow> world" where
  "native_removeEventListener h l w =
     (let c = heap w ! h in
      w\<lparr>heap := (heap w)[h := c\<lparr>listeners := removeAll l (listeners c)\<rparr>]\<rparr>)"

section \<open>createAbortController\<close>

text \<open>The literal of lines 8--17: every method is \<^verbatim>\<open>noop\<close>, \<^verbatim>\<open>aborted: false\<close>.\<close>

definition mockAbortController :: controller where
  "mockAbortController = \<lparr>kind = Mock, aborted = False, listeners = []\<rparr>"

text \<open>Lines 5--22. \<open>native\<close> is the test \<^verbatim>\<open>typeof AbortController !== 'undefined'\<close>. The
  object returned is a new one on either branch (the literal is evaluated in each call);
  it is stored at the next free address.\<close>

definition createAbortController :: "bool \<Rightarrow> world \<Rightarrow> addr \<times> world" where
  "createAbortController native w =
     (let a = length (heap w);
          c = (if native then new_AbortController else mockAbortController)
      in (a, w\<lparr>heap := heap w @ [c], trace := trace w @ [Created a]\<rparr>))"

text \<open>Method calls on a handle, dispatched on what the handle is. On the mock every
  method is \<^verbatim>\<open>noop\<close>. There is no call on an object that does not exist.\<close>

definition abort :: "addr \<Rightarrow> world \<Rightarrow> world" where
  "abort h w =
     (if h < length (heap w) \<and> kind (heap w ! h) = Native then native_abort h w else w)"

definition addEventListener :: "addr \<Rightarrow> listener \<Rightarrow> world \<Rightarrow> world" where
  "addEventListener h l w =
     (if h < length (heap w) \<and> kind (heap w ! h) = Native
      then native_addEventListener h l w else w)"

definition removeEventListener :: "addr \<Rightarrow> listener \<Rightarrow> world \<Rightarrow> world" where
  "removeEventListener h l w =
     (if h < length (heap w) \<and> kind (heap w ! h) = Native
      then native_removeEventListener h l w else w)"

section \<open>The caller's code\<close>

text \<open>One call made by the caller's code. A call needs its object: on an address where
  no handle lives nothing is called.\<close>

fun run_uop :: "uop \<Rightarrow> world \<Rightarrow> world" where
  "run_uop (CallAbort h) w =
     (if h < length (heap w) then abort h (log (AbortCall User h) w) else w)"
| "run_uop (AddListener h l) w = addEventListener h l w"
| "run_uop (RemoveListener h l) w = removeEventListener h l w"

definition run_uops :: "uop list \<Rightarrow> world \<Rightarrow> world" where
  "run_uops ops w = fold run_uop ops w"

definition view_of :: "world \<Rightarrow> view" where
  "view_of w = (heap w, hooks w)"

section \<open>The teardown closures\<close>

text \<open>The teardown closures of lines 121 and 124, called by the host.
  \<^verbatim>\<open>() => cleanupFn.call(null, controller)\<close> and \<^verbatim>\<open>() => controller.abort()\<close>.\<close>

fun teardown_call :: "teardown \<Rightarrow> world \<Rightarrow> exn option \<times> world" where
  "teardown_call (CustomCleanup cleanupFn controller) w =
     (let (ops, thrown) = cleanupFn (ControllerObj controller) (view_of w)
      in (map_option Thrown thrown,
          run_uops ops (log (CleanupCall cleanupFn (ControllerObj controller)) w)))"
| "teardown_call (DefaultCleanup controller) w =
     (None, abort controller (log (AbortCall Binder controller) w))"

section \<open>The host framework: useRef and useEffect\<close>

text \<open>Modelled from the spec: the host's \<^verbatim>\<open>useRef\<close>, which is not part of the repository.
  The binder "owns a persistent reference ... across re-renders": the \<open>i\<close>-th reference
  object of a component instance is made with its initial value at the first render and is
  the same object at every later one.\<close>

definition useRef :: "nat \<Rightarrow> refval \<Rightarrow> world \<Rightarrow> nat \<times> world" where
  "useRef i initial w =
     (if i < length (hooks w) then (i, w)
      else (length (hooks w), w\<lparr>hooks := hooks w @ [initial]\<rparr>))"

text \<open>Modelled from the spec: the host compares dependency lists element by element
  ("re-activation occurs only when at least one element differs from the previous
  activation (shallow comparison)"); without a list the effect runs every time. The
  identity of the array takes no part.\<close>

definition depsChanged :: "deps option \<Rightarrow> deps option \<Rightarrow> bool" where
  "depsChanged prev next =
     (case (prev, next) of
        (Some p, Some n) \<Rightarrow> list_ex (\<lambda>(a, b). a \<noteq> b) (zip (elems p) (elems n))
      | _ \<Rightarrow> True)"

text \<open>Modelled from the spec: the host's \<^verbatim>\<open>useEffect\<close>, which is not part of the
  repository. At the first render, and at a later one whose dependency list changed, the
  teardown registered by the previous activation runs first ("teardown of epoch N happens
  before setup of epoch N+1"), then the callback, whose result is registered as the new
  teardown. An exception of the teardown or of the callback leaves the hook.\<close>

definition useEffect ::
  "(world \<Rightarrow> (exn + teardown) \<times> world) \<Rightarrow> deps option \<Rightarrow> world \<Rightarrow> exn option \<times> world" where
  "useEffect callback ds w =
     (if mounted w \<and> \<not> depsChanged (lastDeps w) ds then (None, w\<lparr>lastDeps := ds\<rparr>)
      else
        (let (r1, w1) = (case cleanup w of
                           None \<Rightarrow> (None, w)
                         | Some td \<Rightarrow> teardown_call td (w\<lparr>cleanup := None\<rparr>))
         in case r1 of
              Some e \<Rightarrow> (Some e, w1)
            | None \<Rightarrow>
               (case callback w1 of
                  (Inl e, w2) \<Rightarrow> (Some e, w2\<lparr>mounted := True, lastDeps := ds\<rparr>)
                | (Inr td, w2) \<Rightarrow>
                    (None, w2\<lparr>mounted := True, lastDeps := ds, cleanup := Some td\<rparr>))))"

section \<open>useAbortableEffect\<close>

text \<open>The function passed to \<^verbatim>\<open>useEffect\<close> (lines 108--125). \<open>firstRun\<close> and
  \<open>controllerRef\<close> are the reference objects the closure captured. Reading
  \<^verbatim>\<open>controller.signal\<close> of \<^verbatim>\<open>undefined\<close> is a \<open>TypeError\<close>; no code stores a boolean in
  \<^verbatim>\<open>controllerRef\<close>, and the model answers the same there.\<close>

definition effect_callback ::
  "bool \<Rightarrow> nat \<Rightarrow> nat \<Rightarrow> effect_fn \<Rightarrow> world \<Rightarrow> (exn + teardown) \<times> world" where
  "effect_callback native firstRun controllerRef effect w =
     (let w1 = (if hooks w ! firstRun = RBool False
                then (let (a, w') = createAbortController native w
                      in w'\<lparr>hooks := (hooks w')[controllerRef := RController a]\<rparr>)
                else w\<lparr>hooks := (hooks w)[firstRun := RBool False]\<rparr>)
      in case hooks w1 ! controllerRef of
           RController controller \<Rightarrow>
             (let (ops, r) = effect (SignalObj controller) (view_of w1);
                  w2 = run_uops ops (log (EffectCall (SignalObj controller)) w1)
              in case r of
                   Inl msg \<Rightarrow> (Inl (Thrown msg), w2)
                 | Inr (RetFunction cleanupFn) \<Rightarrow> (Inr (CustomCleanup cleanupFn controller), w2)
                 | Inr (RetOther v) \<Rightarrow> (Inr (DefaultCleanup controller), w2))
         | _ \<Rightarrow> (Inl TypeError, w1))"

text \<open>\<^verbatim>\<open>!controllerRef.current\<close> of line 103.\<close>

fun falsy :: "refval \<Rightarrow> bool" where
  "falsy RUndefined = True"
| "falsy (RBool b) = (\<not> b)"
| "falsy (RController a) = False"

text \<open>The hook itself, lines 98--131: one render of the component that uses it. The
  result is the exception that left the hook, or the reference object returned at line
  130. The host calls the function passed to \<^verbatim>\<open>useEffect\<close> once the render has returned;
  no code of the hook runs in between, and the embedding calls it in place.\<close>

definition useAbortableEffect ::
  "bool \<Rightarrow> effect_fn \<Rightarrow> deps option \<Rightarrow> world \<Rightarrow> (exn + nat) \<times> world" where
  "useAbortableEffect native effect ds w =
     (let (firstRun, w1) = useRef 0 (RBool True) w;
          (controllerRef, w2) = useRef 1 RUndefined w1;
          w3 = (if falsy (hooks w2 ! controllerRef)
                then (let (a, w') = createAbortController native w2
                      in w'\<lparr>hooks := (hooks w')[controllerRef := RController a]\<rparr>)
                else w2);
          (r, w4) = useEffect (effect_callback native firstRun controllerRef effect) ds w3
      in (case r of Some e \<Rightarrow> Inl e | None \<Rightarrow> Inr controllerRef, w4))"

section \<open>The life of a component instance\<close>

text \<open>Modelled from the spec: what happens to a component instance. It is rendered
  (with the effect function and the dependency list of that render), it is destroyed
  ("triggering one final teardown of the current handle"), and between these the caller's
  code may run (an event handler reading the reference). A destroyed instance is not
  rendered again.\<close>

datatype input =
    Render effect_fn "deps option"
  | Unmount
  | External "view \<Rightarrow> uop list"

fun step :: "bool \<Rightarrow> input \<Rightarrow> world \<Rightarrow> exn option \<times> world" where
  "step native (Render effect ds) w =
     (if destroyed w then (None, w)
      else (case useAbortableEffect native effect ds w of
              (Inl e, w') \<Rightarrow> (Some e, w')
            | (Inr r, w') \<Rightarrow> (None, w')))"
| "step native Unmount w =
     (if destroyed w \<or> \<not> mounted w then (None, w)
      else (case cleanup w of
              None \<Rightarrow> (None, w\<lparr>destroyed := True\<rparr>)
            | Some td \<Rightarrow> teardown_call td (w\<lparr>cleanup := None, destroyed := True\<rparr>)))"
| "step native (External f) w = (None, run_uops (f (view_of w)) w)"

text \<open>A run stops at the first exception: what the host does with it is the host's.\<close>

fun run :: "bool \<Rightarrow> input list \<Rightarrow> world \<Rightarrow> exn option \<times> world" where
  "run native [] w = (None, w)"
| "run native (i # rest) w =
     (case step native i w of
        (Some e, w') \<Rightarrow> (Some e, w')
      | (None, w') \<Rightarrow> run native rest w')"

section \<open>Fixtures from the tests and the example\<close>

text \<open>\<^verbatim>\<open>() => {}\<close>, the effect of the tests "returns an abort controller" and "by default
  aborts on cleanup".\<close>

definition effect_nothing :: effect_fn where
  "effect_nothing arg v = ([], Inr (RetOther JUndefined))"

text \<open>The cleanup of the test "supports custom cleanup function":
  \<^verbatim>\<open>(abortController) => { abortController.abort(); ... }\<close>.\<close>

fun cleanup_abort :: cleanup_fn where
  "cleanup_abort (ControllerObj h) v = ([CallAbort h], None)"
| "cleanup_abort (SignalObj h) v = ([], Some ''abort is not a function'')"

text \<open>A cleanup that leaves its handle alone.\<close>

definition cleanup_keep :: cleanup_fn where
  "cleanup_keep arg v = ([], None)"

definition effect_custom :: effect_fn where
  "effect_custom arg v = ([], Inr (RetFunction cleanup_abort))"

definition effect_keep :: effect_fn where
  "effect_keep arg v = ([], Inr (RetFunction cleanup_keep))"

text \<open>The effect of the test "supports custom async operation aborting": it listens on the
  signal it was given (listener \<open>7\<close>) and returns nothing.\<close>

fun effect_listen :: effect_fn where
  "effect_listen (SignalObj h) v = ([AddListener h 7], Inr (RetOther JUndefined))"
| "effect_listen (ControllerObj h) v = ([], Inl ''addEventListener is not a function'')"

text \<open>An effect and a cleanup that throw.\<close>

definition effect_throw :: effect_fn where
  "effect_throw arg v = ([], Inl ''boom'')"

definition cleanup_throw :: cleanup_fn where
  "cleanup_throw arg v = ([], Some ''bang'')"

definition effect_cleanup_throw :: effect_fn where
  "effect_cleanup_throw arg v = ([], Inr (RetFunction cleanup_throw))"

text \<open>\<^verbatim>\<open>abortControllerRef.current.abort()\<close>, the click handler of the example.\<close>

fun manual_abort :: "view \<Rightarrow> uop list" where
  "manual_abort (hp, [r0, RController h]) = [CallAbort h]"
| "manual_abort v = []"

text \<open>The dependency lists of the test "re-runs on deps change": a new array at every
  render.\<close>

definition deps_a :: "nat \<Rightarrow> deps option" where
  "deps_a i = Some \<lparr>ident = i, elems = [JStr ''someValue'']\<rparr>"

definition deps_b :: "nat \<Rightarrow> deps option" where
  "deps_b i = Some \<lparr>ident = i, elems = [JStr ''newValue'']\<rparr>"

text \<open>A run without the native primitive: the caller listens on the signal, aborts through
  the reference, the component renders again and is destroyed.\<close>

definition run_fallback :: "input list" where
  "run_fallback =
     [Render effect_listen None, External manual_abort, Render effect_nothing None, Unmount]"

text \<open>The caller listens on the signal; then it aborts through the reference.\<close>

definition run_listen :: "input list" where
  "run_listen = [Render effect_listen None]"

definition run_manual :: "input list" where
  "run_manual = [Render effect_listen None, External manual_abort]"

text \<open>Four renders and the destruction: the dependency list is unchanged at the second
  render and changed at the third and the fourth; the third effect returns a cleanup.\<close>

definition run_lifecycle :: "input list" where
  "run_lifecycle =
     [Render effect_nothing (deps_a 1), Render effect_nothing (deps_a 2),
      Render effect_custom (deps_b 3), Render effect_nothing (deps_a 4), Unmount]"

text \<open>One render, with a dependency list; the effect listens on its signal and returns
  nothing.\<close>

definition run_deps_a :: "input list" where
  "run_deps_a = [Render effect_listen (deps_a 1)]"

text \<open>One render whose effect returns a cleanup that does not abort.\<close>

definition run_keep :: "input list" where
  "run_keep = [Render effect_keep (deps_a 1)]"

text \<open>The first render of the scenario of the spec: dependency list \<^verbatim>\<open>['a']\<close>, no
  cleanup.\<close>

definition run_first_a :: "input list" where
  "run_first_a = [Render effect_nothing (deps_a 1)]"

text \<open>One render whose effect returns a cleanup that throws.\<close>

definition run_cleanup_throw :: "input list" where
  "run_cleanup_throw = [Render effect_cleanup_throw (deps_a 1)]"

text \<open>One render whose effect function throws.\<close>

definition run_throw :: "input list" where
  "run_throw = [Render effect_throw None]"

text \<open>A state with two handles, the reference pointing to the newer one: the callback
  was called a second time, without the teardown of the first activation.\<close>

definition two_handles :: world where
  "two_handles = snd (effect_callback True 0 1 effect_nothing (snd (run True run_first_a init)))"

section \<open>Reading the trace\<close>

text \<open>The arguments of the calls of the effect function, in order.\<close>

fun activations :: "event list \<Rightarrow> jsref list" where
  "activations [] = []"
| "activations (EffectCall x # t) = x # activations t"
| "activations (e # t) = activations t"

text \<open>The handle a teardown closure captured, and the event its call leaves.\<close>

fun td_handle :: "teardown \<Rightarrow> addr" where
  "td_handle (CustomCleanup f h) = h"
| "td_handle (DefaultCleanup h) = h"

fun td_event :: "teardown \<Rightarrow> event" where
  "td_event (CustomCleanup f h) = CleanupCall f (ControllerObj h)"
| "td_event (DefaultCleanup h) = AbortCall Binder h"

text \<open>The handles torn down, in order: by a call of a custom cleanup with the handle, or
  by the default \<^verbatim>\<open>controller.abort()\<close>.\<close>

fun teardowns :: "event list \<Rightarrow> addr list" where
  "teardowns [] = []"
| "teardowns (CleanupCall f (ControllerObj h) # t) = h # teardowns t"
| "teardowns (AbortCall Binder h # t) = h # teardowns t"
| "teardowns (e # t) = teardowns t"

text \<open>The handles constructed, in order.\<close>

fun created :: "event list \<Rightarrow> addr list" where
  "created [] = []"
| "created (Created h # t) = h # created t"
| "created (e # t) = created t"

text \<open>Events of the caller's code and of the handles themselves.\<close>

fun neutral :: "event \<Rightarrow> bool" where
  "neutral (AbortCall User h) = True"
| "neutral (Notified h l) = True"
| "neutral e = False"

fun notified :: "event \<Rightarrow> bool" where
  "notified (Notified h l) = True"
| "notified e = False"

text \<open>
  The order of activations and teardowns, read off a trace. The state is the handle that
  is active: activated and not yet torn down. A trace is refused (\<open>None\<close>) when a handle
  is constructed or the effect function is called while a handle is active, when the
  effect function is called with a handle, when a cleanup is called with a signal, or
  when a teardown is for another handle than the active one (so also when a second
  teardown follows the first).
\<close>

fun scan :: "addr option \<Rightarrow> event list \<Rightarrow> addr option option" where
  "scan a [] = Some a"
| "scan a (Created h # t) = (if a = None then scan a t else None)"
| "scan a (EffectCall (SignalObj h) # t) = (if a = None then scan (Some h) t else None)"
| "scan a (EffectCall (ControllerObj h) # t) = None"
| "scan a (CleanupCall f (ControllerObj h) # t) = (if a = Some h then scan None t else None)"
| "scan a (CleanupCall f (SignalObj h) # t) = None"
| "scan a (AbortCall Binder h # t) = (if a = Some h then scan None t else None)"
| "scan a (AbortCall User h # t) = scan a t"
| "scan a (Notified h l # t) = scan a t"

text \<open>The active handle as a list of effect arguments.\<close>

fun stack :: "addr option \<Rightarrow> jsref list" where
  "stack None = []"
| "stack (Some h) = [SignalObj h]"

section \<open>Invariants\<close>

text \<open>What the caller's code can change: states of native handles and the trace.\<close>

definition user_changed :: "world \<Rightarrow> world \<Rightarrow> bool" where
  "user_changed w w' \<longleftrightarrow>
     hooks w' = hooks w \<and> mounted w' = mounted w \<and> lastDeps w' = lastDeps w \<and>
     cleanup w' = cleanup w \<and> destroyed w' = destroyed w \<and>
     length (heap w') = length (heap w) \<and>
     (\<forall>h < length (heap w).
        kind (heap w' ! h) = kind (heap w ! h) \<and>
        (aborted (heap w ! h) \<longrightarrow> aborted (heap w' ! h)) \<and>
        (kind (heap w ! h) = Mock \<longrightarrow> heap w' ! h = heap w ! h)) \<and>
     (\<exists>evs. trace w' = trace w @ evs \<and> list_all neutral evs)"

definition good :: "bool \<Rightarrow> controller \<Rightarrow> bool" where
  "good native c \<longleftrightarrow>
     kind c = (if native then Native else Mock) \<and>
     (kind c = Mock \<longrightarrow> \<not> aborted c \<and> listeners c = [])"

text \<open>Notifications and abort calls against the state of the handles.\<close>

definition notif_ok :: "world \<Rightarrow> bool" where
  "notif_ok w \<longleftrightarrow>
     (\<forall>h < length (heap w). distinct (listeners (heap w ! h))) \<and>
     distinct (filter notified (trace w)) \<and>
     (\<forall>h l. Notified h l \<in> set (trace w) \<longrightarrow>
        h < length (heap w) \<and> kind (heap w ! h) = Native \<and> aborted (heap w ! h)) \<and>
     (\<forall>k h. AbortCall k h \<in> set (trace w) \<longrightarrow>
        h < length (heap w) \<and> (kind (heap w ! h) = Native \<longrightarrow> aborted (heap w ! h)))"

text \<open>The state between two inputs, whether or not an exception ended the run.\<close>

definition binder_inv0 :: "bool \<Rightarrow> world \<Rightarrow> bool" where
  "binder_inv0 native w \<longleftrightarrow>
     list_all (good native) (heap w) \<and> distinct (activations (trace w)) \<and>
     set (activations (trace w)) = SignalObj ` {..<length (heap w)} \<and>
     created (trace w) = [0..<length (heap w)] \<and>
     (if hooks w = []
      then \<not> mounted w \<and> heap w = [] \<and> cleanup w = None \<and> \<not> destroyed w
      else mounted w \<and> (destroyed w \<longrightarrow> cleanup w = None) \<and>
           (\<exists>c. hooks w = [RBool False, RController c] \<and> c < length (heap w) \<and>
                activations (trace w) \<noteq> [] \<and> last (activations (trace w)) = SignalObj c \<and>
                (\<forall>td. cleanup w = Some td \<longrightarrow> td_handle td = c)))"

definition binder_inv :: "bool \<Rightarrow> world \<Rightarrow> bool" where
  "binder_inv native w \<longleftrightarrow>
     binder_inv0 native w \<and> scan None (trace w) = Some (map_option td_handle (cleanup w))"

definition binder_inv_failed :: "bool \<Rightarrow> world \<Rightarrow> bool" where
  "binder_inv_failed native w \<longleftrightarrow> binder_inv0 native w \<and> scan None (trace w) \<noteq> None"

text \<open>The state after line 105 of a render, and the state within a render in which the
  host calls teardown and callback.\<close>

definition rendered :: "bool \<Rightarrow> world \<Rightarrow> world" where
  "rendered native w =
     (if hooks w = []
      then w\<lparr>heap := heap w @ [if native then new_AbortController else mockAbortController],
             trace := trace w @ [Created (length (heap w))],
             hooks := [RBool True, RController (length (heap w))]\<rparr>
      else w)"

definition mid :: "bool \<Rightarrow> world \<Rightarrow> bool" where
  "mid native w \<longleftrightarrow>
     list_all (good native) (heap w) \<and> \<not> destroyed w \<and>
     distinct (activations (trace w)) \<and> created (trace w) = [0..<length (heap w)] \<and>
     scan None (trace w) = Some (map_option td_handle (cleanup w)) \<and>
     (\<exists>b c. hooks w = [RBool b, RController c] \<and> c < length (heap w) \<and>
        (b \<longleftrightarrow> activations (trace w) = []) \<and> (b \<longleftrightarrow> \<not> mounted w) \<and>
        (b \<longrightarrow> cleanup w = None \<and> length (heap w) = Suc 0) \<and>
        (\<not> b \<longrightarrow> last (activations (trace w)) = SignalObj c \<and>
           set (activations (trace w)) = SignalObj ` {..<length (heap w)}) \<and>
        (\<forall>td. cleanup w = Some td \<longrightarrow> td_handle td = c))"

text \<open>The state after lines 111--115 of the callback, and what the callback returns to
  the host for a result of the effect function (lines 118--124).\<close>

definition installed :: "bool \<Rightarrow> world \<Rightarrow> world" where
  "installed native w =
     (if hooks w ! 0 = RBool False
      then w\<lparr>heap := heap w @ [if native then new_AbortController else mockAbortController],
             trace := trace w @ [Created (length (heap w))],
             hooks := (hooks w)[1 := RController (length (heap w))]\<rparr>
      else w\<lparr>hooks := (hooks w)[0 := RBool False]\<rparr>)"

fun registered :: "addr \<Rightarrow> string + retval \<Rightarrow> exn + teardown" where
  "registered h (Inl msg) = Inl (Thrown msg)"
| "registered h (Inr (RetFunction f)) = Inr (CustomCleanup f h)"
| "registered h (Inr (RetOther v)) = Inr (DefaultCleanup h)"

text \<open>Handles are never removed, never change what they are, and an aborted one stays
  aborted.\<close>

definition heap_mono :: "world \<Rightarrow> world \<Rightarrow> bool" where
  "heap_mono w w' \<longleftrightarrow>
     length (heap w) \<le> length (heap w') \<and>
     (\<forall>h < length (heap w).
        kind (heap w' ! h) = kind (heap w ! h) \<and>
        (aborted (heap w ! h) \<longrightarrow> aborted (heap w' ! h)))"

section \<open>Evaluation\<close>

lemmas model_defs = log_def new_AbortController_def native_abort_def
  native_addEventListener_def native_removeEventListener_def mockAbortController_def
  createAbortController_def abort_def addEventListener_def removeEventListener_def
  run_uops_def view_of_def effect_callback_def useRef_def depsChanged_def useEffect_def
  useAbortableEffect_def effect_nothing_def cleanup_keep_def effect_custom_def
  effect_keep_def effect_throw_def cleanup_throw_def effect_cleanup_throw_def
  deps_a_def deps_b_def Let_def

section \<open>What the caller's code preserves\<close>

lemma user_changed_refl: "user_changed w w"
  by (simp add: user_changed_def)

lemma user_changed_trans:
  "user_changed w w1 \<Longrightarrow> user_changed w1 w2 \<Longrightarrow> user_changed w w2"
  unfolding user_changed_def
  apply (elim conjE exE)
  apply (intro conjI)
            apply simp_all
  done

lemma user_changed_abort: "user_changed w (abort h w)"
  by (auto simp: user_changed_def abort_def native_abort_def Let_def nth_list_update list_all_iff)

lemma user_changed_log_abort: "user_changed w (abort h (log (AbortCall User h) w))"
proof -
  have "user_changed w (log (AbortCall User h) w)"
    by (simp add: user_changed_def log_def)
  then show ?thesis
    using user_changed_abort user_changed_trans by blast
qed

lemma user_changed_add: "user_changed w (addEventListener h l w)"
  by (auto simp: user_changed_def addEventListener_def native_addEventListener_def Let_def nth_list_update)

lemma user_changed_remove: "user_changed w (removeEventListener h l w)"
  by (auto simp: user_changed_def removeEventListener_def native_removeEventListener_def
        Let_def nth_list_update)

lemma user_changed_uop: "user_changed w (run_uop x w)"
  by (cases x)
     (simp_all add: user_changed_log_abort user_changed_add user_changed_remove
        user_changed_refl)

lemma user_changed_uops: "user_changed w (run_uops ops w)"
  unfolding run_uops_def
proof (induction ops arbitrary: w)
  case Nil
  show ?case by (simp add: user_changed_refl)
next
  case (Cons x ops)
  show ?case
    using user_changed_trans [OF user_changed_uop Cons.IH] by simp
qed

lemma scan_append:
  "scan a (t @ u) = (case scan a t of None \<Rightarrow> None | Some b \<Rightarrow> scan b u)"
  by (induction a t rule: scan.induct) simp_all

lemma scan_neutral: "list_all neutral evs \<Longrightarrow> scan a evs = Some a"
  by (induction a evs rule: scan.induct) simp_all

lemma activations_append: "activations (t @ u) = activations t @ activations u"
  by (induction t rule: activations.induct) simp_all

lemma activations_neutral: "list_all neutral evs \<Longrightarrow> activations evs = []"
  by (induction evs rule: activations.induct) simp_all

lemma created_append: "created (t @ u) = created t @ created u"
  by (induction t rule: created.induct) simp_all

lemma created_neutral: "list_all neutral evs \<Longrightarrow> created evs = []"
  by (induction evs rule: created.induct) simp_all

lemma teardowns_append: "teardowns (t @ u) = teardowns t @ teardowns u"
  by (induction t rule: teardowns.induct) simp_all

lemma teardowns_neutral: "list_all neutral evs \<Longrightarrow> teardowns evs = []"
  by (induction evs rule: teardowns.induct) simp_all

lemma user_changed_good:
  assumes "user_changed w w'" and "list_all (good native) (heap w)"
  shows "list_all (good native) (heap w')"
  using assms unfolding user_changed_def list_all_length good_def
  by (metis (no_types, lifting))

lemma user_changed_scan:
  assumes "user_changed w w'"
  shows "scan a (trace w') = scan a (trace w)"
proof -
  from assms obtain evs where "trace w' = trace w @ evs" "list_all neutral evs"
    unfolding user_changed_def by blast
  then show ?thesis
    by (simp add: scan_append scan_neutral split: option.splits)
qed

lemma user_changed_activations:
  assumes "user_changed w w'"
  shows "activations (trace w') = activations (trace w)"
proof -
  from assms obtain evs where "trace w' = trace w @ evs" "list_all neutral evs"
    unfolding user_changed_def by blast
  then show ?thesis
    by (simp add: activations_append activations_neutral)
qed

lemma user_changed_created:
  assumes "user_changed w w'"
  shows "created (trace w') = created (trace w)"
proof -
  from assms obtain evs where "trace w' = trace w @ evs" "list_all neutral evs"
    unfolding user_changed_def by blast
  then show ?thesis
    by (simp add: created_append created_neutral)
qed

lemma user_changed_teardowns:
  assumes "user_changed w w'"
  shows "teardowns (trace w') = teardowns (trace w)"
proof -
  from assms obtain evs where "trace w' = trace w @ evs" "list_all neutral evs"
    unfolding user_changed_def by blast
  then show ?thesis
    by (simp add: teardowns_append teardowns_neutral)
qed

lemma user_changed_fields:
  assumes "user_changed w w'"
  shows "user_changed (w\<lparr>mounted := m, lastDeps := d, cleanup := c\<rparr>)
           (w'\<lparr>mounted := m, lastDeps := d, cleanup := c\<rparr>)"
  using assms by (simp add: user_changed_def)

lemma teardown_call_changed:
  assumes "teardown_call td w = (r, w')"
  shows "user_changed (log (td_event td) w) w'" and "r \<noteq> Some TypeError"
  using assms
  by (cases td; auto simp: user_changed_uops user_changed_abort split: prod.splits)+

lemma scan_td_event: "scan (Some (td_handle td)) [td_event td] = Some None"
  by (cases td) simp_all

lemma activations_td_event: "activations [td_event td] = []"
  by (cases td) simp_all

lemma created_td_event: "created [td_event td] = []"
  by (cases td) simp_all

lemma teardowns_td_event: "teardowns [td_event td] = [td_handle td]"
  by (cases td) simp_all

lemma scan_teardowns:
  "scan a t = Some b \<Longrightarrow>
     stack a @ activations t = map SignalObj (teardowns t) @ stack b"
  by (induction a t rule: scan.induct) (auto split: if_splits)

lemma teardowns_set:
  "h \<in> set (teardowns t) \<longleftrightarrow>
     AbortCall Binder h \<in> set t \<or> (\<exists>f. CleanupCall f (ControllerObj h) \<in> set t)"
  by (induction t rule: teardowns.induct) auto

lemma notified_imp_neutral: "notified e \<Longrightarrow> neutral e"
  by (cases e) simp_all

lemma notified_neutral: "list_all notified evs \<Longrightarrow> list_all neutral evs"
  by (induction evs) (simp_all add: notified_imp_neutral)

section \<open>The states a run can reach\<close>

lemma user_changed_inv0:
  assumes "user_changed w w'" and "binder_inv0 native w"
  shows "binder_inv0 native w'"
proof -
  have g: "list_all (good native) (heap w')"
    using assms user_changed_good unfolding binder_inv0_def by blast
  have a: "activations (trace w') = activations (trace w)"
    "created (trace w') = created (trace w)"
    using assms(1) by (rule user_changed_activations, rule user_changed_created)
  have f: "hooks w' = hooks w" "mounted w' = mounted w" "cleanup w' = cleanup w"
    "destroyed w' = destroyed w" "length (heap w') = length (heap w)"
    using assms(1) unfolding user_changed_def by simp_all
  have e: "heap w = [] \<longleftrightarrow> heap w' = []"
    using f(5) by (metis length_0_conv)
  show ?thesis
    using assms(2) g unfolding binder_inv0_def a f e
    by simp
qed

lemma effect_callback_eq:
  assumes "hooks w = [RBool b, RController c]"
  shows "effect_callback native 0 1 effect w =
     (let h = (if b then c else length (heap w));
          w1 = installed native w;
          (ops, r) = effect (SignalObj h) (view_of w1)
      in (registered h r, run_uops ops (log (EffectCall (SignalObj h)) w1)))"
  using assms
  by (cases b)
     (auto simp: effect_callback_def installed_def createAbortController_def Let_def
           split: prod.splits sum.splits retval.splits)

lemma good_fresh: "good native (if native then new_AbortController else mockAbortController)"
  by (simp add: good_def new_AbortController_def mockAbortController_def)

lemma useAbortableEffect_eq:
  assumes "hooks w = [] \<or> (\<exists>c. hooks w = [RBool False, RController c])"
  shows "useAbortableEffect native effect ds w =
     (let (r, w4) = useEffect (effect_callback native 0 1 effect) ds (rendered native w)
      in (case r of Some e \<Rightarrow> Inl e | None \<Rightarrow> Inr 1, w4))"
proof -
  have "useRef 0 (RBool True) w = (0, if hooks w = [] then w\<lparr>hooks := [RBool True]\<rparr> else w)"
    using assms by (auto simp: useRef_def)
  moreover have "useRef 1 RUndefined (if hooks w = [] then w\<lparr>hooks := [RBool True]\<rparr> else w) =
      (1, if hooks w = [] then w\<lparr>hooks := [RBool True, RUndefined]\<rparr> else w)"
    using assms by (auto simp: useRef_def)
  ultimately show ?thesis
    using assms
    by (auto simp: useAbortableEffect_def rendered_def createAbortController_def Let_def
        case_prod_beta cong: option.case_cong)
qed

lemma inv_rendered:
  assumes "binder_inv native w" and "\<not> destroyed w"
  shows "mid native (rendered native w)"
  using assms
  by (auto simp: binder_inv_def binder_inv0_def mid_def rendered_def good_fresh scan_append
        activations_append created_append split: if_splits)

lemma user_changed_mid:
  assumes "user_changed w w'" and "mid native w"
  shows "mid native w'"
proof -
  have g: "list_all (good native) (heap w')"
    using assms user_changed_good unfolding mid_def by blast
  have a: "activations (trace w') = activations (trace w)"
    "created (trace w') = created (trace w)"
    using assms(1) by (rule user_changed_activations, rule user_changed_created)
  have sc: "scan None (trace w') = scan None (trace w)"
    using assms(1) by (rule user_changed_scan)
  have f: "hooks w' = hooks w" "mounted w' = mounted w" "cleanup w' = cleanup w"
    "destroyed w' = destroyed w"
    using assms(1) unfolding user_changed_def by simp_all
  have l: "length (heap w') = length (heap w)"
    using assms(1) unfolding user_changed_def by simp
  show ?thesis
    using assms(2) g unfolding mid_def a f sc l by simp
qed

lemma mid_teardown:
  assumes m: "mid native w" and c: "cleanup w = Some td"
    and t: "teardown_call td (w\<lparr>cleanup := None\<rparr>) = (r, w')"
  shows "mid native w'" and "cleanup w' = None" and "r \<noteq> Some TypeError"
proof -
  let ?wl = "log (td_event td) (w\<lparr>cleanup := None\<rparr>)"
  have u: "user_changed ?wl w'" and r: "r \<noteq> Some TypeError"
    using teardown_call_changed [OF t] by simp_all
  have "mid native ?wl"
    using m c scan_td_event [of td] activations_td_event [of td] created_td_event [of td]
    by (auto simp: mid_def log_def scan_append activations_append created_append)
  then show "mid native w'"
    using u user_changed_mid by blast
  show "cleanup w' = None"
    using u by (simp add: user_changed_def log_def)
  show "r \<noteq> Some TypeError" by (rule r)
qed

lemma registered_cases:
  "(\<exists>msg. registered h r = Inl (Thrown msg)) \<or> (\<exists>td. registered h r = Inr td \<and> td_handle td = h)"
  by (cases "(h, r)" rule: registered.cases) simp_all

lemma mid_callback:
  assumes m: "mid native w" and c: "cleanup w = None"
    and e: "effect_callback native 0 1 effect w = (res, w2)"
  shows "case res of
           Inl e \<Rightarrow> e \<noteq> TypeError \<and> binder_inv_failed native (w2\<lparr>mounted := True, lastDeps := ds\<rparr>)
         | Inr td \<Rightarrow> binder_inv native (w2\<lparr>mounted := True, lastDeps := ds, cleanup := Some td\<rparr>)"
proof -
  from m obtain b k where hk: "hooks w = [RBool b, RController k]" and k: "k < length (heap w)"
    and b: "b \<longleftrightarrow> activations (trace w) = []"
    and b1: "b \<longrightarrow> length (heap w) = Suc 0"
    and b0: "\<not> b \<longrightarrow> set (activations (trace w)) = SignalObj ` {..<length (heap w)}"
    unfolding mid_def by blast
  have dc: "distinct (activations (trace w))" "created (trace w) = [0..<length (heap w)]"
    using m by (simp_all add: mid_def)
  define h where "h = (if b then k else length (heap w))"
  define w1 where "w1 = installed native w"
  define wl where "wl = log (EffectCall (SignalObj h)) w1"
  obtain ops r where er: "effect (SignalObj h) (view_of w1) = (ops, r)"
    by (cases "effect (SignalObj h) (view_of w1)")
  have res: "res = registered h r" and w2: "w2 = run_uops ops wl"
    using e er unfolding effect_callback_eq [OF hk] h_def w1_def wl_def
    by (simp_all add: Let_def)
  have u: "user_changed wl w2"
    unfolding w2 by (rule user_changed_uops)
  have sc: "scan None (trace w) = Some None"
    using m c by (simp add: mid_def)
  have g: "list_all (good native) (heap w)" and nd: "\<not> destroyed w"
    using m by (simp_all add: mid_def)
  have base: "binder_inv0 native (wl\<lparr>mounted := True, lastDeps := ds, cleanup := cl\<rparr>)"
    if "\<forall>td. cl = Some td \<longrightarrow> td_handle td = h" for cl
    using that hk k g nd b b1 b0 dc
    by (cases b)
       (auto simp: binder_inv0_def wl_def w1_def h_def installed_def log_def good_fresh
          activations_append created_append lessThan_Suc)
  have scl: "scan None (trace wl) = Some (Some h)"
    using sc hk
    by (cases b) (auto simp: wl_def w1_def h_def installed_def log_def scan_append)
  have sc2: "scan None (trace w2) = Some (Some h)"
    using user_changed_scan [OF u] scl by simp
  consider (thrown) msg where "res = Inl (Thrown msg)"
    | (reg) td where "res = Inr td" "td_handle td = h"
    using registered_cases [of h r] res by auto
  then show ?thesis
  proof cases
    case thrown
    have "cleanup w2 = None"
      using u c by (simp add: user_changed_def wl_def w1_def installed_def log_def)
    then have "w2\<lparr>mounted := True, lastDeps := ds, cleanup := None\<rparr> =
        w2\<lparr>mounted := True, lastDeps := ds\<rparr>"
      by simp
    then have "binder_inv0 native (w2\<lparr>mounted := True, lastDeps := ds\<rparr>)"
      using user_changed_inv0 [OF user_changed_fields [OF u] base [of None]] by simp
    then show ?thesis
      using thrown sc2 by (simp add: binder_inv_failed_def)
  next
    case reg
    have "binder_inv0 native (w2\<lparr>mounted := True, lastDeps := ds, cleanup := Some td\<rparr>)"
      using user_changed_inv0 [OF user_changed_fields [OF u] base [of "Some td"]] reg by simp
    then show ?thesis
      using reg sc2 by (simp add: binder_inv_def)
  qed
qed

lemma mid_mounted_inv:
  assumes "mid native w" and "mounted w"
  shows "binder_inv native w"
  using assms by (auto simp: mid_def binder_inv_def binder_inv0_def)

lemma inv_imp_failed: "binder_inv native w \<Longrightarrow> binder_inv_failed native w"
  by (simp add: binder_inv_def binder_inv_failed_def)

lemma user_changed_inv:
  assumes "user_changed w w'" and "binder_inv native w"
  shows "binder_inv native w'"
proof -
  have "cleanup w' = cleanup w"
    using assms(1) by (simp add: user_changed_def)
  then show ?thesis
    using assms user_changed_inv0 [OF assms(1)] user_changed_scan [OF assms(1)]
    by (simp add: binder_inv_def)
qed

lemma mid_useEffect:
  assumes m: "mid native w"
    and u: "useEffect (effect_callback native 0 1 effect) ds w = (r, w')"
  shows "case r of None \<Rightarrow> binder_inv native w'
         | Some e \<Rightarrow> e \<noteq> TypeError \<and> binder_inv_failed native w'"
proof (cases "mounted w \<and> \<not> depsChanged (lastDeps w) ds")
  case True
  then have "r = None" "w' = w\<lparr>lastDeps := ds\<rparr>"
    using u by (simp_all add: useEffect_def)
  moreover have "binder_inv native (w\<lparr>lastDeps := ds\<rparr>)"
    using mid_mounted_inv [OF m] True
    by (auto simp: binder_inv_def binder_inv0_def split: if_splits)
  ultimately show ?thesis by simp
next
  case False
  show ?thesis
  proof (cases "cleanup w")
    case None
    obtain res w2 where e: "effect_callback native 0 1 effect w = (res, w2)"
      by (cases "effect_callback native 0 1 effect w")
    show ?thesis
      using mid_callback [OF m None e, of ds] u False None e
      by (auto simp: useEffect_def split: sum.splits)
  next
    case (Some td)
    obtain r1 w1 where t: "teardown_call td (w\<lparr>cleanup := None\<rparr>) = (r1, w1)"
      by (cases "teardown_call td (w\<lparr>cleanup := None\<rparr>)")
    note mt = mid_teardown [OF m Some t]
    have mw: "mounted w"
      using m Some by (auto simp: mid_def)
    have mw1: "mounted w1"
      using teardown_call_changed(1) [OF t] mw by (simp add: user_changed_def log_def)
    show ?thesis
    proof (cases r1)
      case None
      obtain res w2 where e: "effect_callback native 0 1 effect w1 = (res, w2)"
        by (cases "effect_callback native 0 1 effect w1")
      show ?thesis
        using mid_callback [OF mt(1) mt(2) e, of ds] u False Some t None e
        by (auto simp: useEffect_def split: sum.splits)
    next
      case (Some e)
      then have "r = Some e" "w' = w1"
        using u False \<open>cleanup w = Some td\<close> t by (auto simp: useEffect_def)
      then show ?thesis
        using mt(3) Some inv_imp_failed [OF mid_mounted_inv [OF mt(1) mw1]] by simp
    qed
  qed
qed

lemma inv_hooks:
  assumes "binder_inv native w"
  shows "hooks w = [] \<or> (\<exists>c. hooks w = [RBool False, RController c])"
  using assms by (auto simp: binder_inv_def binder_inv0_def split: if_splits)

lemma step_inv:
  assumes i: "binder_inv native w" and s: "step native x w = (r, w')"
  shows "case r of None \<Rightarrow> binder_inv native w'
         | Some e \<Rightarrow> e \<noteq> TypeError \<and> binder_inv_failed native w'"
proof (cases x)
  case (Render effect ds)
  show ?thesis
  proof (cases "destroyed w")
    case True
    then show ?thesis using i s Render by simp
  next
    case False
    obtain r4 w4 where u: "useEffect (effect_callback native 0 1 effect) ds (rendered native w) = (r4, w4)"
      by (cases "useEffect (effect_callback native 0 1 effect) ds (rendered native w)")
    have "r = r4" "w' = w4"
      using s Render False u useAbortableEffect_eq [OF inv_hooks [OF i], of native effect ds]
      by (auto split: option.splits)
    then show ?thesis
      using mid_useEffect [OF inv_rendered [OF i False] u] by (cases r4) simp_all
  qed
next
  case Unmount
  show ?thesis
  proof (cases "destroyed w \<or> \<not> mounted w")
    case True
    then show ?thesis using i s Unmount by auto
  next
    case False
    show ?thesis
    proof (cases "cleanup w")
      case None
      then have "r = None" "w' = w\<lparr>destroyed := True\<rparr>"
        using s Unmount False by auto
      moreover have "binder_inv native (w\<lparr>destroyed := True\<rparr>)"
        using i None False by (auto simp: binder_inv_def binder_inv0_def)
      ultimately show ?thesis by simp
    next
      case (Some td)
      let ?w0 = "w\<lparr>cleanup := None, destroyed := True\<rparr>"
      have t: "teardown_call td ?w0 = (r, w')"
        using s Unmount False Some by auto
      have "binder_inv native (log (td_event td) ?w0)"
        using i Some False scan_td_event [of td] activations_td_event [of td]
          created_td_event [of td]
        by (auto simp: binder_inv_def binder_inv0_def log_def scan_append activations_append
            created_append)
      then have "binder_inv native w'"
        using teardown_call_changed(1) [OF t] user_changed_inv by blast
      then show ?thesis
        using teardown_call_changed(2) [OF t] inv_imp_failed by (cases r) auto
    qed
  qed
next
  case (External f)
  then have "r = None" "w' = run_uops (f (view_of w)) w"
    using s by auto
  then show ?thesis
    using user_changed_inv [OF user_changed_uops i] by simp
qed

lemma inv_init: "binder_inv native init"
  by (simp add: binder_inv_def binder_inv0_def init_def)

lemma filter_notified_map: "filter notified (map (Notified h) ls) = map (Notified h) ls"
  by (induction ls) simp_all

lemma notif_ok_fields [simp]:
  "notif_ok (w\<lparr>hooks := hs\<rparr>) = notif_ok w"
  "notif_ok (w\<lparr>mounted := m\<rparr>) = notif_ok w"
  "notif_ok (w\<lparr>lastDeps := d\<rparr>) = notif_ok w"
  "notif_ok (w\<lparr>cleanup := c\<rparr>) = notif_ok w"
  "notif_ok (w\<lparr>destroyed := x\<rparr>) = notif_ok w"
  by (simp_all add: notif_ok_def)

lemma notif_abort:
  assumes n: "notif_ok w" and h: "h < length (heap w)"
  shows "notif_ok (abort h (log (AbortCall k h) w))"
proof (cases "kind (heap w ! h) = Native \<and> \<not> aborted (heap w ! h)")
  case False
  then have "abort h (log (AbortCall k h) w) = log (AbortCall k h) w"
    by (auto simp: abort_def native_abort_def log_def Let_def)
  then show ?thesis
    using n h False by (auto simp: notif_ok_def log_def)
next
  case True
  let ?c = "heap w ! h"
  have eq: "abort h (log (AbortCall k h) w) =
      w\<lparr>heap := (heap w)[h := ?c\<lparr>aborted := True\<rparr>],
        trace := trace w @ AbortCall k h # map (Notified h) (listeners ?c)\<rparr>"
    using True h by (simp add: abort_def native_abort_def log_def Let_def)
  have fresh: "Notified h l \<notin> set (trace w)" for l
    using n True by (auto simp: notif_ok_def)
  have dl: "distinct (listeners ?c)"
    using n h by (simp add: notif_ok_def)
  have d: "distinct (filter notified (trace w) @ map (Notified h) (listeners ?c))"
    using n dl fresh by (auto simp: notif_ok_def distinct_map inj_on_def)
  show ?thesis
    unfolding eq notif_ok_def
    using n h True d
    by (auto simp: notif_ok_def nth_list_update filter_notified_map)
qed

lemma notif_add: "notif_ok w \<Longrightarrow> notif_ok (addEventListener h l w)"
  by (auto simp: notif_ok_def addEventListener_def native_addEventListener_def Let_def
        nth_list_update)

lemma notif_remove: "notif_ok w \<Longrightarrow> notif_ok (removeEventListener h l w)"
  by (auto simp: notif_ok_def removeEventListener_def native_removeEventListener_def Let_def
        nth_list_update distinct_removeAll)

lemma notif_uop: "notif_ok w \<Longrightarrow> notif_ok (run_uop x w)"
  by (cases x) (simp_all add: notif_abort notif_add notif_remove)

lemma notif_uops: "notif_ok w \<Longrightarrow> notif_ok (run_uops ops w)"
  unfolding run_uops_def
  by (induction ops arbitrary: w) (simp_all add: notif_uop)

lemma notif_log:
  assumes "notif_ok w" and "\<not> notified e" and "\<forall>k h. e \<noteq> AbortCall k h"
  shows "notif_ok (log e w)"
  using assms by (cases e) (auto simp: notif_ok_def log_def)

lemma notif_teardown:
  assumes "notif_ok w" and "td_handle td < length (heap w)"
    and "teardown_call td w = (r, w')"
  shows "notif_ok w'"
  using assms
  by (cases td) (auto simp: notif_uops notif_log notif_abort split: prod.splits)

lemma notif_fresh:
  assumes "notif_ok w"
  shows "notif_ok (w\<lparr>heap := heap w @ [if native then new_AbortController else mockAbortController],
                     trace := trace w @ [Created a]\<rparr>)"
  using assms
  by (auto simp: notif_ok_def nth_append new_AbortController_def mockAbortController_def
        less_Suc_eq)

lemma notif_installed: "notif_ok w \<Longrightarrow> notif_ok (installed native w)"
  using notif_fresh [where w = w and native = native and a = "length (heap w)"]
  by (simp add: installed_def notif_ok_def)

lemma notif_rendered: "notif_ok w \<Longrightarrow> notif_ok (rendered native w)"
  using notif_fresh [where w = w and native = native and a = "length (heap w)"]
  by (simp add: rendered_def notif_ok_def)

lemma notif_callback:
  assumes hk: "hooks w = [RBool b, RController c]" and n: "notif_ok w"
    and e: "effect_callback native 0 1 effect w = (res, w')"
  shows "notif_ok w'"
proof -
  have "notif_ok (log (EffectCall x) (installed native w))" for x
    using notif_log [OF notif_installed [OF n]] by simp
  then show ?thesis
    using e unfolding effect_callback_eq [OF hk]
    by (auto simp: Let_def notif_uops split: prod.splits)
qed

lemma mid_hooks:
  assumes "mid native w"
  shows "\<exists>b c. hooks w = [RBool b, RController c] \<and> c < length (heap w) \<and>
           (\<forall>td. cleanup w = Some td \<longrightarrow> td_handle td = c)"
  using assms unfolding mid_def by blast

lemma notif_useEffect:
  assumes m: "mid native w" and n: "notif_ok w"
    and u: "useEffect (effect_callback native 0 1 effect) ds w = (r, w')"
  shows "notif_ok w'"
proof (cases "mounted w \<and> \<not> depsChanged (lastDeps w) ds")
  case True
  then show ?thesis using u n by (auto simp: useEffect_def)
next
  case False
  obtain r1 w1 where t: "(case cleanup w of None \<Rightarrow> (None, w)
      | Some td \<Rightarrow> teardown_call td (w\<lparr>cleanup := None\<rparr>)) = (r1, w1)"
    by (cases "case cleanup w of None \<Rightarrow> (None, w)
      | Some td \<Rightarrow> teardown_call td (w\<lparr>cleanup := None\<rparr>)")
  have n1: "notif_ok w1" and m1: "r1 = None \<longrightarrow> mid native w1"
  proof -
    show "notif_ok w1"
    proof (cases "cleanup w")
      case None
      then show ?thesis using t n by simp
    next
      case (Some td)
      then have "td_handle td < length (heap (w\<lparr>cleanup := None\<rparr>))"
        using mid_hooks [OF m] by auto
      then show ?thesis
        using notif_teardown [of "w\<lparr>cleanup := None\<rparr>" td r1 w1] t n Some by simp
    qed
    show "r1 = None \<longrightarrow> mid native w1"
    proof (cases "cleanup w")
      case None
      then show ?thesis using t m by simp
    next
      case (Some td)
      then show ?thesis using mid_teardown(1) [OF m Some] t by simp
    qed
  qed
  show ?thesis
  proof (cases r1)
    case (Some e)
    then show ?thesis
      using u False t n1 by (auto simp: useEffect_def)
  next
    case None
    obtain res w2 where e: "effect_callback native 0 1 effect w1 = (res, w2)"
      by (cases "effect_callback native 0 1 effect w1")
    from m1 None obtain b c where "hooks w1 = [RBool b, RController c]"
      using mid_hooks by blast
    then have "notif_ok w2"
      using notif_callback n1 e by blast
    then show ?thesis
      using u False t None e by (auto simp: useEffect_def split: sum.splits)
  qed
qed

lemma notif_step:
  assumes i: "binder_inv native w" and n: "notif_ok w" and s: "step native x w = (r, w')"
  shows "notif_ok w'"
proof (cases x)
  case (Render effect ds)
  show ?thesis
  proof (cases "destroyed w")
    case True
    then show ?thesis using n s Render by simp
  next
    case False
    obtain r4 w4 where u: "useEffect (effect_callback native 0 1 effect) ds (rendered native w) = (r4, w4)"
      by (cases "useEffect (effect_callback native 0 1 effect) ds (rendered native w)")
    have "w' = w4"
      using s Render False u useAbortableEffect_eq [OF inv_hooks [OF i], of native effect ds]
      by (auto split: option.splits)
    then show ?thesis
      using notif_useEffect [OF inv_rendered [OF i False] notif_rendered [OF n] u] by simp
  qed
next
  case Unmount
  show ?thesis
  proof (cases "destroyed w \<or> \<not> mounted w \<or> cleanup w = None")
    case True
    then show ?thesis using n s Unmount by (auto split: option.splits if_splits)
  next
    case False
    then obtain td where td: "cleanup w = Some td" by auto
    have "td_handle td < length (heap w)"
      using i td False by (auto simp: binder_inv_def binder_inv0_def split: if_splits)
    then show ?thesis
      using notif_teardown [of "w\<lparr>cleanup := None, destroyed := True\<rparr>" td r w'] s Unmount
        False td n
      by simp
  qed
next
  case (External f)
  then show ?thesis using s n by (auto simp: notif_uops)
qed

lemma notif_init: "notif_ok init"
  by (simp add: notif_ok_def init_def)

lemma run_reach:
  assumes "binder_inv native w" and "notif_ok w" and "run native xs w = (r, w')"
  shows "binder_inv_failed native w' \<and> notif_ok w' \<and> r \<noteq> Some TypeError \<and>
         (r = None \<longrightarrow> binder_inv native w')"
  using assms
proof (induction xs arbitrary: w)
  case Nil
  then show ?case by (simp add: inv_imp_failed)
next
  case (Cons x xs)
  obtain r1 w1 where s: "step native x w = (r1, w1)"
    by (cases "step native x w")
  note n1 = notif_step [OF Cons.prems(1,2) s]
  show ?case
  proof (cases r1)
    case None
    then have "binder_inv native w1" "run native xs w1 = (r, w')"
      using step_inv [OF Cons.prems(1) s] Cons.prems(3) s by simp_all
    then show ?thesis using Cons.IH n1 by blast
  next
    case (Some e)
    then have "r = Some e" "w' = w1"
      using Cons.prems(3) s by simp_all
    then show ?thesis
      using step_inv [OF Cons.prems(1) s] Some n1 by simp
  qed
qed

lemma reach:
  assumes "run native xs init = (r, w)"
  shows "binder_inv_failed native w" and "notif_ok w" and "r \<noteq> Some TypeError"
    and "r = None \<Longrightarrow> binder_inv native w"
  using run_reach [OF inv_init notif_init assms] by simp_all

lemma inv0_hooks:
  assumes "binder_inv0 native w"
  shows "hooks w = [] \<or> (\<exists>c. hooks w = [RBool False, RController c])"
  using assms by (auto simp: binder_inv0_def split: if_splits)

lemma inv_kind:
  assumes "binder_inv native w" and "h < length (heap w)"
  shows "kind (heap w ! h) = (if native then Native else Mock)"
  using assms by (simp add: binder_inv_def binder_inv0_def list_all_length good_def)


text \<open>Within a render, the host calls teardown and callback in a state of this shape.\<close>

lemma mid_shape:
  assumes "mid native w"
  shows "\<exists>c. hooks w = [RBool (activations (trace w) = []), RController c]"
  using assms unfolding mid_def by auto

section \<open>Handles over time\<close>

lemma heap_mono_refl: "heap_mono w w"
  by (simp add: heap_mono_def)

lemma heap_mono_trans: "heap_mono w w1 \<Longrightarrow> heap_mono w1 w2 \<Longrightarrow> heap_mono w w2"
  unfolding heap_mono_def by (metis (no_types, lifting) le_trans less_le_trans)

lemma user_changed_mono: "user_changed w w' \<Longrightarrow> heap_mono w w'"
  by (simp add: user_changed_def heap_mono_def)

lemma heap_mono_teardown:
  assumes "teardown_call td w = (r, w')"
  shows "heap_mono w w'"
proof -
  have "heap_mono w (log (td_event td) w)"
    by (simp add: heap_mono_def log_def)
  then show ?thesis
    using teardown_call_changed(1) [OF assms] user_changed_mono heap_mono_trans by blast
qed

lemma heap_mono_callback:
  assumes "effect_callback native fr cr effect w = (res, w')"
  shows "heap_mono w w'"
proof -
  define w1 where "w1 = (if hooks w ! fr = RBool False
                then (let (a, w') = createAbortController native w
                      in w'\<lparr>hooks := (hooks w')[cr := RController a]\<rparr>)
                else w\<lparr>hooks := (hooks w)[fr := RBool False]\<rparr>)"
  have m1: "heap_mono w w1"
    unfolding w1_def
    by (simp add: heap_mono_def createAbortController_def Let_def nth_append)
  have "heap_mono w1 w'"
  proof (cases "hooks w1 ! cr")
    case (RController c)
    obtain ops r where er: "effect (SignalObj c) (view_of w1) = (ops, r)"
      by (cases "effect (SignalObj c) (view_of w1)")
    have "w' = run_uops ops (log (EffectCall (SignalObj c)) w1)"
      using assms RController er unfolding effect_callback_def w1_def [symmetric]
      by (auto simp: Let_def split: sum.splits retval.splits)
    moreover have "heap_mono w1 (log (EffectCall (SignalObj c)) w1)"
      by (simp add: heap_mono_def log_def)
    ultimately show ?thesis
      using user_changed_mono [OF user_changed_uops] heap_mono_trans by blast
  next
    case RUndefined
    then have "w' = w1"
      using assms unfolding effect_callback_def w1_def [symmetric] by (simp add: Let_def)
    then show ?thesis by (simp add: heap_mono_refl)
  next
    case (RBool b)
    then have "w' = w1"
      using assms unfolding effect_callback_def w1_def [symmetric] by (simp add: Let_def)
    then show ?thesis by (simp add: heap_mono_refl)
  qed
  then show ?thesis
    using m1 heap_mono_trans by blast
qed

lemma heap_mono_useEffect:
  assumes u: "useEffect (effect_callback native fr cr effect) ds w = (r, w')"
  shows "heap_mono w w'"
proof (cases "mounted w \<and> \<not> depsChanged (lastDeps w) ds")
  case True
  then show ?thesis using u by (auto simp: useEffect_def heap_mono_def)
next
  case False
  obtain r1 w1 where t: "(case cleanup w of None \<Rightarrow> (None, w)
      | Some td \<Rightarrow> teardown_call td (w\<lparr>cleanup := None\<rparr>)) = (r1, w1)"
    by (cases "case cleanup w of None \<Rightarrow> (None, w)
      | Some td \<Rightarrow> teardown_call td (w\<lparr>cleanup := None\<rparr>)")
  have m1: "heap_mono w w1"
  proof (cases "cleanup w")
    case None
    then show ?thesis using t by (simp add: heap_mono_refl)
  next
    case (Some td)
    then have "heap_mono (w\<lparr>cleanup := None\<rparr>) w1"
      using t heap_mono_teardown by simp
    then show ?thesis by (simp add: heap_mono_def)
  qed
  show ?thesis
  proof (cases r1)
    case (Some e)
    then show ?thesis using u False t m1 by (auto simp: useEffect_def)
  next
    case None
    obtain res w2 where e: "effect_callback native fr cr effect w1 = (res, w2)"
      by (cases "effect_callback native fr cr effect w1")
    have "heap_mono w w2"
      using heap_mono_callback [OF e] m1 heap_mono_trans by blast
    then show ?thesis
      using u False t None e by (auto simp: useEffect_def heap_mono_def split: sum.splits)
  qed
qed

lemma heap_mono_hook:
  assumes "useAbortableEffect native effect ds w = (r, w')"
  shows "heap_mono w w'"
proof -
  obtain fr w1 where r1: "useRef 0 (RBool True) w = (fr, w1)"
    by (cases "useRef 0 (RBool True) w")
  obtain cr w2 where r2: "useRef 1 RUndefined w1 = (cr, w2)"
    by (cases "useRef 1 RUndefined w1")
  define w3 where "w3 = (if falsy (hooks w2 ! cr)
                then (let (a, w') = createAbortController native w2
                      in w'\<lparr>hooks := (hooks w')[cr := RController a]\<rparr>)
                else w2)"
  have "heap w2 = heap w"
    using r1 r2 by (auto simp: useRef_def split: if_splits)
  then have "heap_mono w w3"
    unfolding w3_def
    by (simp add: heap_mono_def createAbortController_def Let_def nth_append)
  moreover obtain r4 w4 where u: "useEffect (effect_callback native fr cr effect) ds w3 = (r4, w4)"
    by (cases "useEffect (effect_callback native fr cr effect) ds w3")
  moreover have "w' = w4"
    using assms r1 r2 u [unfolded w3_def]
    by (simp add: useAbortableEffect_def Let_def)
  ultimately show ?thesis
    using heap_mono_useEffect heap_mono_trans by blast
qed

lemma heap_mono_step:
  assumes "step native x w = (r, w')"
  shows "heap_mono w w'"
proof (cases x)
  case (Render effect ds)
  then show ?thesis
    using assms heap_mono_hook [of native effect ds w]
    by (auto simp: heap_mono_refl split: if_splits prod.splits sum.splits)
next
  case Unmount
  show ?thesis
  proof (cases "cleanup w")
    case None
    then show ?thesis
      using assms Unmount by (auto simp: heap_mono_def split: if_splits)
  next
    case (Some td)
    show ?thesis
    proof (cases "destroyed w \<or> \<not> mounted w")
      case True
      then show ?thesis using assms Unmount by (auto simp: heap_mono_refl)
    next
      case False
      then have "heap_mono (w\<lparr>cleanup := None, destroyed := True\<rparr>) w'"
        using assms Unmount Some heap_mono_teardown by auto
      then show ?thesis by (simp add: heap_mono_def)
    qed
  qed
next
  case (External f)
  then show ?thesis
    using assms user_changed_mono [OF user_changed_uops] by auto
qed

lemma heap_mono_run:
  assumes "run native xs w = (r, w')"
  shows "heap_mono w w'"
  using assms
proof (induction xs arbitrary: w)
  case Nil
  then show ?case by (simp add: heap_mono_refl)
next
  case (Cons x xs)
  obtain r1 w1 where s: "step native x w = (r1, w1)"
    by (cases "step native x w")
  show ?case
  proof (cases r1)
    case None
    then have "run native xs w1 = (r, w')"
      using Cons.prems s by simp
    then show ?thesis
      using Cons.IH heap_mono_step [OF s] heap_mono_trans by blast
  next
    case (Some e)
    then have "w' = w1" using Cons.prems s by simp
    then show ?thesis using heap_mono_step [OF s] by simp
  qed
qed

lemma abort_idem: "abort h (abort h w) = abort h w"
  by (auto simp: abort_def native_abort_def Let_def)

lemma abort_trace:
  "\<exists>evs. trace (abort h w) = trace w @ evs \<and> list_all notified evs"
  by (auto simp: abort_def native_abort_def Let_def list_all_iff)

lemma abort_aborted:
  assumes "h < length (heap w)" and "kind (heap w ! h) = Native"
  shows "aborted (heap (abort h w) ! h)" and "length (heap (abort h w)) = length (heap w)"
  using assms by (simp_all add: abort_def native_abort_def Let_def)

lemma abort_frame:
  "hooks (abort h w) = hooks w"
  "length (heap (abort h w)) = length (heap w)"
  "k \<noteq> h \<Longrightarrow> heap (abort h w) ! k = heap w ! k"
  "abort h (w\<lparr>hooks := hs\<rparr>) = (abort h w)\<lparr>hooks := hs\<rparr>"
  by (auto simp: abort_def native_abort_def Let_def)

lemma good_mock:
  assumes "good False c"
  shows "c = mockAbortController"
  using assms by (simp add: good_def mockAbortController_def)

section \<open>What a render and a destruction do\<close>

lemma callback_trace:
  assumes hk: "hooks w = [RBool b, RController c]"
    and e: "effect_callback native 0 1 effect w = (res, w2)"
  shows "\<exists>evs h v. trace w2 = trace w @ evs \<and> teardowns evs = [] \<and>
           res = registered h (snd (effect (SignalObj h) v))"
proof -
  define h where "h = (if b then c else length (heap w))"
  define w1 where "w1 = installed native w"
  obtain ops out where er: "effect (SignalObj h) (view_of w1) = (ops, out)"
    by (cases "effect (SignalObj h) (view_of w1)")
  have res: "res = registered h out"
    and w2: "w2 = run_uops ops (log (EffectCall (SignalObj h)) w1)"
    using e er unfolding effect_callback_eq [OF hk] h_def w1_def
    by (simp_all add: Let_def)
  have "user_changed (log (EffectCall (SignalObj h)) w1) w2"
    unfolding w2 by (rule user_changed_uops)
  then obtain evs where evs: "trace w2 = trace (log (EffectCall (SignalObj h)) w1) @ evs"
    "list_all neutral evs"
    unfolding user_changed_def by blast
  have "trace w1 = trace w @ (if b then [] else [Created (length (heap w))])"
    using hk by (simp add: w1_def installed_def)
  then have "trace w2 = trace w @ ((if b then [] else [Created (length (heap w))]) @
      EffectCall (SignalObj h) # evs)"
    using evs(1) by (simp add: log_def)
  moreover have "teardowns ((if b then [] else [Created (length (heap w))]) @
      EffectCall (SignalObj h) # evs) = []"
    using evs(2) by (simp add: teardowns_append teardowns_neutral)
  moreover have "res = registered h (snd (effect (SignalObj h) (view_of w1)))"
    using res er by simp
  ultimately show ?thesis by blast
qed

lemma callback_shape:
  assumes hk: "hooks w = [RBool b, RController c]"
    and e: "effect_callback native 0 1 effect w = (res, w2)"
  shows "\<exists>h v. h = (if b then c else length (heap w)) \<and>
           res = registered h (snd (effect (SignalObj h) v)) \<and>
           activations (trace w2) = activations (trace w) @ [SignalObj h] \<and>
           hooks w2 = [RBool False, RController h] \<and>
           length (heap w2) = (if b then length (heap w) else Suc (length (heap w)))"
proof -
  define h where "h = (if b then c else length (heap w))"
  define w1 where "w1 = installed native w"
  obtain ops out where er: "effect (SignalObj h) (view_of w1) = (ops, out)"
    by (cases "effect (SignalObj h) (view_of w1)")
  have res: "res = registered h out"
    and w2: "w2 = run_uops ops (log (EffectCall (SignalObj h)) w1)"
    using e er unfolding effect_callback_eq [OF hk] h_def w1_def
    by (simp_all add: Let_def)
  have u: "user_changed (log (EffectCall (SignalObj h)) w1) w2"
    unfolding w2 by (rule user_changed_uops)
  have a: "activations (trace w2) = activations (trace w) @ [SignalObj h]"
    using user_changed_activations [OF u] hk
    by (simp add: w1_def installed_def log_def activations_append)
  have k: "hooks w2 = [RBool False, RController h]"
    and l: "length (heap w2) = (if b then length (heap w) else Suc (length (heap w)))"
    using u hk by (auto simp: user_changed_def w1_def h_def installed_def log_def)
  have "res = registered h (snd (effect (SignalObj h) (view_of w1)))"
    using res er by simp
  then show ?thesis
    using a k l h_def by blast
qed

lemma step_render_eq:
  assumes i: "binder_inv native w" and nd: "\<not> destroyed w"
  shows "step native (Render effect ds) w =
           useEffect (effect_callback native 0 1 effect) ds (rendered native w)"
proof -
  obtain r4 w4 where u: "useEffect (effect_callback native 0 1 effect) ds (rendered native w) = (r4, w4)"
    by (cases "useEffect (effect_callback native 0 1 effect) ds (rendered native w)")
  show ?thesis
    using nd u useAbortableEffect_eq [OF inv_hooks [OF i], of native effect ds]
    by (cases r4) simp_all
qed

lemma step_render_fst:
  assumes "\<not> destroyed w" and "fst (step native (Render effect ds) w) = Some e"
  shows "fst (useAbortableEffect native effect ds w) = Inl e"
  using assms
  by (auto split: prod.splits sum.splits)

lemma inv_registered:
  assumes i: "binder_inv native w" and c: "cleanup w = Some td"
  shows "mounted w" and "hooks w = [RBool False, RController (td_handle td)]"
    and "td_handle td < length (heap w)"
    and "last (activations (trace w)) = SignalObj (td_handle td)"
    and "rendered native w = w"
  using assms
  by (auto simp: binder_inv_def binder_inv0_def rendered_def split: if_splits)

lemma custom_call:
  assumes "heap w0 = heap w" and "hooks w0 = hooks w" and "trace w0 = trace w"
  shows "\<exists>w' evs. teardown_call (CustomCleanup f h) w0 =
             (map_option Thrown (snd (f (ControllerObj h) (view_of w))), w') \<and>
           w' = run_uops (fst (f (ControllerObj h) (view_of w)))
                  (log (CleanupCall f (ControllerObj h)) w0) \<and>
           trace w' = trace w @ CleanupCall f (ControllerObj h) # evs \<and> list_all neutral evs"
proof -
  let ?wl = "log (CleanupCall f (ControllerObj h)) w0"
  let ?w' = "run_uops (fst (f (ControllerObj h) (view_of w))) ?wl"
  have v: "view_of w0 = view_of w"
    using assms by (simp add: view_of_def)
  have t: "teardown_call (CustomCleanup f h) w0 =
      (map_option Thrown (snd (f (ControllerObj h) (view_of w))), ?w')"
    by (simp add: v case_prod_beta)
  have "user_changed ?wl ?w'"
    by (rule user_changed_uops)
  then obtain evs where "trace ?w' = trace ?wl @ evs" "list_all neutral evs"
    unfolding user_changed_def by blast
  then have "trace ?w' = trace w @ CleanupCall f (ControllerObj h) # evs \<and> list_all neutral evs"
    using assms(3) by (simp add: log_def)
  then show ?thesis
    using t by blast
qed

lemma td_handle_cases: "td = DefaultCleanup (td_handle td) \<or> (\<exists>f. td = CustomCleanup f (td_handle td))"
  by (cases td) simp_all

lemma registered_Inr: "\<exists>td. registered h (Inr x) = Inr td"
  by (cases x) simp_all

text \<open>A render with a changed dependency list first calls the registered teardown; what
  follows in that render holds no teardown.\<close>

lemma fire_shape:
  assumes i: "binder_inv native w" and nd: "\<not> destroyed w" and c: "cleanup w = Some td"
    and f: "depsChanged (lastDeps w) ds"
    and s: "step native (Render effect ds) w = (r, w')"
  shows "\<exists>r1 wt evs. teardown_call td (w\<lparr>cleanup := None\<rparr>) = (r1, wt) \<and>
           trace w' = trace wt @ evs \<and> teardowns evs = [] \<and> heap_mono wt w' \<and>
           (r1 \<noteq> None \<longrightarrow> r = r1)"
proof -
  have rw: "rendered native w = w" by (rule inv_registered(5) [OF i c])
  have m: "mid native w" using inv_rendered [OF i nd] rw by simp
  have u: "useEffect (effect_callback native 0 1 effect) ds w = (r, w')"
    using s step_render_eq [OF i nd] rw by simp
  obtain r1 wt where t: "teardown_call td (w\<lparr>cleanup := None\<rparr>) = (r1, wt)"
    by (cases "teardown_call td (w\<lparr>cleanup := None\<rparr>)")
  show ?thesis
  proof (cases r1)
    case (Some e)
    then have "r = r1" "w' = wt"
      using u f c t by (auto simp: useEffect_def)
    then show ?thesis
      using t Some heap_mono_refl by auto
  next
    case None
    obtain res w2 where e: "effect_callback native 0 1 effect wt = (res, w2)"
      by (cases "effect_callback native 0 1 effect wt")
    have tr: "trace w' = trace w2" and hp: "heap w' = heap w2"
      using u f c t None e by (auto simp: useEffect_def split: sum.splits)
    obtain b k where "hooks wt = [RBool b, RController k]"
      using mid_hooks [OF mid_teardown(1) [OF m c t]] by blast
    then obtain evs where "trace w2 = trace wt @ evs" "teardowns evs = []"
      using callback_trace [OF _ e] by blast
    moreover have "heap_mono wt w'"
      using heap_mono_callback [OF e] hp by (simp add: heap_mono_def)
    ultimately show ?thesis
      using t None tr by auto
  qed
qed

lemma unmount_eq:
  assumes i: "binder_inv native w" and nd: "\<not> destroyed w" and c: "cleanup w = Some td"
  shows "step native Unmount w = teardown_call td (w\<lparr>cleanup := None, destroyed := True\<rparr>)"
  using inv_registered(1) [OF i c] nd c by simp

lemma quiet_render:
  assumes "mounted w" and "\<not> destroyed w" and "binder_inv native w"
    and "\<not> depsChanged (lastDeps w) ds"
  shows "step native (Render effect ds) w = (None, w\<lparr>lastDeps := ds\<rparr>)"
proof -
  have "hooks w \<noteq> []"
    using assms(1,3) by (auto simp: binder_inv_def binder_inv0_def split: if_splits)
  then have "rendered native w = w" by (simp add: rendered_def)
  then show ?thesis
    using step_render_eq [OF assms(3,2), of effect ds] assms(1,4)
    by (simp add: useEffect_def)
qed

lemma external_keeps:
  assumes "step native (External f) w = (r, w')"
  shows "r = None" and "cleanup w' = cleanup w" and "teardowns (trace w') = teardowns (trace w)"
    and "hooks w' = hooks w"
proof -
  have w': "w' = run_uops (f (view_of w)) w" and r: "r = None"
    using assms by auto
  have u: "user_changed w w'"
    unfolding w' by (rule user_changed_uops)
  show "r = None" by (rule r)
  show "cleanup w' = cleanup w" "hooks w' = hooks w"
    using u by (simp_all add: user_changed_def)
  show "teardowns (trace w') = teardowns (trace w)"
    using u by (rule user_changed_teardowns)
qed

text \<open>A render that runs the effect, when the registered teardown does not throw: the
  effect function is called, with the signal of the handle then installed.\<close>

lemma render_activates_gen:
  assumes i: "binder_inv native w" and nd: "\<not> destroyed w"
    and f: "\<not> mounted w \<or> depsChanged (lastDeps w) ds"
    and nt: "\<forall>td r1 wt. cleanup w = Some td \<and>
               teardown_call td (w\<lparr>cleanup := None\<rparr>) = (r1, wt) \<longrightarrow> r1 = None"
    and s: "step native (Render effect ds) w = (r, w')"
  shows "\<exists>v. activations (trace w') = activations (trace w) @ [SignalObj (length (heap w))] \<and>
           hooks w' = [RBool False, RController (length (heap w))] \<and>
           length (heap w') = Suc (length (heap w)) \<and>
           r = (case registered (length (heap w))
                       (snd (effect (SignalObj (length (heap w))) v)) of
                  Inl e \<Rightarrow> Some e | Inr td \<Rightarrow> None) \<and>
           (\<forall>td. registered (length (heap w)) (snd (effect (SignalObj (length (heap w))) v)) = Inr td
              \<longrightarrow> cleanup w' = Some td)"
proof -
  let ?w = "rendered native w"
  have m: "mid native ?w" by (rule inv_rendered [OF i nd])
  have f': "\<not> (mounted ?w \<and> \<not> depsChanged (lastDeps ?w) ds)"
    using f by (auto simp: rendered_def)
  have u: "useEffect (effect_callback native 0 1 effect) ds ?w = (r, w')"
    using s step_render_eq [OF i nd] by simp
  obtain r1 wt where t: "(case cleanup ?w of None \<Rightarrow> (None, ?w)
      | Some td \<Rightarrow> teardown_call td (?w\<lparr>cleanup := None\<rparr>)) = (r1, wt)"
    by (cases "case cleanup ?w of None \<Rightarrow> (None, ?w)
      | Some td \<Rightarrow> teardown_call td (?w\<lparr>cleanup := None\<rparr>)")
  have wt: "r1 = None \<and> hooks wt = hooks ?w \<and> length (heap wt) = length (heap ?w) \<and>
      activations (trace wt) = activations (trace ?w)"
  proof (cases "cleanup ?w")
    case None
    then show ?thesis using t by simp
  next
    case (Some td)
    then have c: "cleanup w = Some td"
      by (auto simp: rendered_def split: if_splits)
    have rw: "?w = w"
      by (rule inv_registered(5) [OF i c])
    have t': "teardown_call td (w\<lparr>cleanup := None\<rparr>) = (r1, wt)"
      using t Some rw by simp
    have uc: "user_changed (log (td_event td) (w\<lparr>cleanup := None\<rparr>)) wt"
      by (rule teardown_call_changed(1) [OF t'])
    have "r1 = None"
      using nt c t' by blast
    moreover have "hooks wt = hooks w" "length (heap wt) = length (heap w)"
      using uc by (simp_all add: user_changed_def log_def)
    moreover have "activations (trace wt) = activations (trace w)"
      using user_changed_activations [OF uc] activations_td_event [of td]
      by (simp add: log_def activations_append)
    ultimately show ?thesis using rw by simp
  qed
  obtain res w2 where e: "effect_callback native 0 1 effect wt = (res, w2)"
    by (cases "effect_callback native 0 1 effect wt")
  have fin: "r = (case res of Inl e \<Rightarrow> Some e | Inr td \<Rightarrow> None)"
    "trace w' = trace w2" "hooks w' = hooks w2" "heap w' = heap w2"
    "\<forall>td. res = Inr td \<longrightarrow> cleanup w' = Some td"
    using u f' t wt e by (auto simp: useEffect_def split: sum.splits)
  show ?thesis
  proof (cases "hooks w = []")
    case True
    then have hw: "heap w = []" "activations (trace w) = []"
      using i by (auto simp: binder_inv_def binder_inv0_def)
    have hk: "hooks wt = [RBool True, RController 0]" "length (heap wt) = Suc 0"
      "activations (trace wt) = []"
      using wt True hw by (simp_all add: rendered_def activations_append)
    show ?thesis
      using callback_shape [OF hk(1) e] hk fin hw by auto
  next
    case False
    then obtain c where c: "hooks w = [RBool False, RController c]"
      using inv_hooks [OF i] by auto
    have rw: "?w = w" using False by (simp add: rendered_def)
    have hk: "hooks wt = [RBool False, RController c]" "length (heap wt) = length (heap w)"
      "activations (trace wt) = activations (trace w)"
      using wt c rw by simp_all
    show ?thesis
      using callback_shape [OF hk(1) e] hk fin by auto
  qed
qed

lemma render_activates:
  assumes i: "binder_inv native w" and nd: "\<not> destroyed w"
    and f: "\<not> mounted w \<or> depsChanged (lastDeps w) ds"
    and q: "\<forall>g h. cleanup w = Some (CustomCleanup g h) \<longrightarrow>
              snd (g (ControllerObj h) (view_of w)) = None"
    and s: "step native (Render effect ds) w = (r, w')"
  shows "\<exists>v. activations (trace w') = activations (trace w) @ [SignalObj (length (heap w))] \<and>
           hooks w' = [RBool False, RController (length (heap w))] \<and>
           length (heap w') = Suc (length (heap w)) \<and>
           r = (case registered (length (heap w))
                       (snd (effect (SignalObj (length (heap w))) v)) of
                  Inl e \<Rightarrow> Some e | Inr td \<Rightarrow> None) \<and>
           (\<forall>td. registered (length (heap w)) (snd (effect (SignalObj (length (heap w))) v)) = Inr td
              \<longrightarrow> cleanup w' = Some td)"
proof -
  have "r1 = None"
    if c: "cleanup w = Some td" and t: "teardown_call td (w\<lparr>cleanup := None\<rparr>) = (r1, wt)"
    for td r1 wt
  proof (cases td)
    case (CustomCleanup g h)
    then have "snd (g (ControllerObj h) (view_of w)) = None"
      using q c by simp
    then show ?thesis
      using t CustomCleanup by (auto simp: view_of_def split: prod.splits)
  next
    case (DefaultCleanup h)
    then show ?thesis using t by simp
  qed
  then show ?thesis
    using render_activates_gen [OF i nd f _ s] by blast
qed

text \<open>A render that runs the effect and ends without an exception registers what the
  callback made of the result of the effect function, called with the signal of the handle
  at the next free address.\<close>

lemma activate_shape:
  assumes i: "binder_inv native w" and nd: "\<not> destroyed w"
    and f: "\<not> mounted w \<or> depsChanged (lastDeps w) ds"
    and s: "step native (Render effect ds) w = (None, w1)"
  shows "\<exists>td v. cleanup w1 = Some td \<and> td_handle td = length (heap w) \<and>
           registered (length (heap w)) (snd (effect (SignalObj (length (heap w))) v)) = Inr td \<and>
           hooks w1 = [RBool False, RController (length (heap w))] \<and>
           last (activations (trace w1)) = SignalObj (length (heap w))"
proof -
  have nt: "r1 = None"
    if c: "cleanup w = Some td" and t: "teardown_call td (w\<lparr>cleanup := None\<rparr>) = (r1, wt)"
    for td r1 wt
  proof -
    have "depsChanged (lastDeps w) ds"
      using f inv_registered(1) [OF i c] by simp
    then show ?thesis
      using fire_shape [OF i nd c _ s] t by auto
  qed
  obtain v where a: "activations (trace w1) = activations (trace w) @ [SignalObj (length (heap w))]"
    and k: "hooks w1 = [RBool False, RController (length (heap w))]"
    and r: "None = (case registered (length (heap w))
                       (snd (effect (SignalObj (length (heap w))) v)) of
                  Inl e \<Rightarrow> Some e | Inr td \<Rightarrow> None)"
    and c: "\<forall>td. registered (length (heap w)) (snd (effect (SignalObj (length (heap w))) v)) = Inr td
              \<longrightarrow> cleanup w1 = Some td"
    using render_activates_gen [OF i nd f _ s] nt by blast
  obtain td where td: "registered (length (heap w))
      (snd (effect (SignalObj (length (heap w))) v)) = Inr td"
    using r by (cases "registered (length (heap w))
      (snd (effect (SignalObj (length (heap w))) v))") simp_all
  have h: "td_handle td = length (heap w)"
    using registered_cases [of "length (heap w)" "snd (effect (SignalObj (length (heap w))) v)"] td
    by auto
  have cl: "cleanup w1 = Some td"
    using c td by blast
  have la: "last (activations (trace w1)) = SignalObj (length (heap w))"
    using a by simp
  show ?thesis
    using cl h td k la by blast
qed

lemma run_uops_cleanup: "cleanup (run_uops ops w) = cleanup w"
  using user_changed_uops [of w ops] by (simp add: user_changed_def)

lemma run_uops_destroyed: "destroyed (run_uops ops w) = destroyed w"
  using user_changed_uops [of w ops] by (simp add: user_changed_def)

lemma callback_cleanup:
  assumes "effect_callback native a b effect w = (res, w2)"
  shows "cleanup w2 = cleanup w" and "destroyed w2 = destroyed w"
  using assms
  by (auto simp: effect_callback_def Let_def createAbortController_def log_def run_uops_cleanup
      run_uops_destroyed
      split: refval.splits prod.splits sum.splits retval.splits if_splits)


text \<open>The teardowns of a render that runs the effect: the registered one, and no other.\<close>

lemma render_teardowns:
  assumes i: "binder_inv native w" and nd: "\<not> destroyed w"
    and f: "\<not> mounted w \<or> depsChanged (lastDeps w) ds"
    and s: "step native (Render effect ds) w = (r, w')"
  shows "teardowns (trace w') =
           teardowns (trace w) @ (case cleanup w of None \<Rightarrow> [] | Some td \<Rightarrow> [td_handle td])"
proof (cases "cleanup w")
  case None
  let ?w = "rendered native w"
  have m: "mid native ?w" by (rule inv_rendered [OF i nd])
  have cn: "cleanup ?w = None" using None by (simp add: rendered_def)
  have f': "\<not> (mounted ?w \<and> \<not> depsChanged (lastDeps ?w) ds)"
    using f by (auto simp: rendered_def)
  have u: "useEffect (effect_callback native 0 1 effect) ds ?w = (r, w')"
    using s step_render_eq [OF i nd] by simp
  obtain res w2 where e: "effect_callback native 0 1 effect ?w = (res, w2)"
    by (cases "effect_callback native 0 1 effect ?w")
  have tr: "trace w' = trace w2"
    using u f' cn e by (auto simp: useEffect_def split: sum.splits)
  obtain b k where "hooks ?w = [RBool b, RController k]"
    using mid_hooks [OF m] by blast
  then obtain evs where "trace w2 = trace ?w @ evs" "teardowns evs = []"
    using callback_trace [OF _ e] by blast
  moreover have "teardowns (trace ?w) = teardowns (trace w)"
    by (simp add: rendered_def teardowns_append)
  ultimately show ?thesis
    using tr None by (simp add: teardowns_append)
next
  case (Some td)
  have fc: "depsChanged (lastDeps w) ds"
    using f inv_registered(1) [OF i Some] by simp
  obtain r1 wt evs where t: "teardown_call td (w\<lparr>cleanup := None\<rparr>) = (r1, wt)"
    and tr: "trace w' = trace wt @ evs" and ev: "teardowns evs = []"
    using fire_shape [OF i nd Some fc s] by blast
  have uc: "user_changed (log (td_event td) (w\<lparr>cleanup := None\<rparr>)) wt"
    by (rule teardown_call_changed(1) [OF t])
  have "teardowns (trace wt) = teardowns (trace w) @ [td_handle td]"
    using user_changed_teardowns [OF uc] teardowns_td_event [of td]
    by (simp add: log_def teardowns_append)
  then show ?thesis
    using tr ev Some by (simp add: teardowns_append)
qed

text \<open>The handles torn down so far are handles that exist.\<close>

lemma inv_teardowns_bound:
  assumes i: "binder_inv native w" and h: "h \<in> set (teardowns (trace w))"
  shows "h < length (heap w)"
proof -
  have s: "scan None (trace w) = Some (map_option td_handle (cleanup w))"
    using i by (simp add: binder_inv_def)
  have "SignalObj h \<in> set (activations (trace w))"
    using scan_teardowns [OF s] h by simp
  then show ?thesis
    using i by (auto simp: binder_inv_def binder_inv0_def)
qed

text \<open>An exception leaves no teardown registered.\<close>

lemma step_failed_cleanup:
  assumes i: "binder_inv native w" and s: "step native x w = (Some e, w')"
  shows "cleanup w' = None"
proof (cases x)
  case (Render effect ds)
  have nd: "\<not> destroyed w"
    using s Render by (auto split: if_splits)
  let ?w = "rendered native w"
  have u: "useEffect (effect_callback native 0 1 effect) ds ?w = (Some e, w')"
    using s Render step_render_eq [OF i nd] by simp
  have f': "\<not> (mounted ?w \<and> \<not> depsChanged (lastDeps ?w) ds)"
    using u by (auto simp: useEffect_def split: if_splits)
  obtain r1 wt where t: "(case cleanup ?w of None \<Rightarrow> (None, ?w)
      | Some td \<Rightarrow> teardown_call td (?w\<lparr>cleanup := None\<rparr>)) = (r1, wt)"
    by (cases "case cleanup ?w of None \<Rightarrow> (None, ?w)
      | Some td \<Rightarrow> teardown_call td (?w\<lparr>cleanup := None\<rparr>)")
  have cn: "cleanup wt = None"
  proof (cases "cleanup ?w")
    case None
    then show ?thesis using t by auto
  next
    case (Some td)
    then have "teardown_call td (?w\<lparr>cleanup := None\<rparr>) = (r1, wt)"
      using t by simp
    from teardown_call_changed(1) [OF this] show ?thesis
      by (simp add: user_changed_def log_def)
  qed
  obtain res w2 where c: "effect_callback native 0 1 effect wt = (res, w2)"
    by (cases "effect_callback native 0 1 effect wt")
  have "cleanup w' = cleanup wt"
    using u f' t c callback_cleanup(1) [OF c]
    by (auto simp: useEffect_def split: option.splits sum.splits)
  then show ?thesis using cn by simp
next
  case Unmount
  then obtain td where c: "cleanup w = Some td"
    and t: "teardown_call td (w\<lparr>cleanup := None, destroyed := True\<rparr>) = (Some e, w')"
    using s by (auto split: if_splits option.splits)
  from teardown_call_changed(1) [OF t] show ?thesis
    by (simp add: user_changed_def log_def)
next
  case (External f)
  then show ?thesis using s by simp
qed

text \<open>A render does not destroy the component.\<close>

lemma render_keeps_alive:
  assumes i: "binder_inv native w" and nd: "\<not> destroyed w"
    and s: "step native (Render effect ds) w = (r, w')"
  shows "\<not> destroyed w'"
proof -
  let ?w = "rendered native w"
  have u: "useEffect (effect_callback native 0 1 effect) ds ?w = (r, w')"
    using s step_render_eq [OF i nd] by simp
  have nr: "\<not> destroyed ?w"
    using nd by (simp add: rendered_def)
  obtain r1 wt where t: "(case cleanup ?w of None \<Rightarrow> (None, ?w)
      | Some td \<Rightarrow> teardown_call td (?w\<lparr>cleanup := None\<rparr>)) = (r1, wt)"
    by (cases "case cleanup ?w of None \<Rightarrow> (None, ?w)
      | Some td \<Rightarrow> teardown_call td (?w\<lparr>cleanup := None\<rparr>)")
  have nt: "\<not> destroyed wt"
  proof (cases "cleanup ?w")
    case None
    then show ?thesis using t nr by auto
  next
    case (Some td)
    then have "teardown_call td (?w\<lparr>cleanup := None\<rparr>) = (r1, wt)"
      using t by simp
    from teardown_call_changed(1) [OF this] show ?thesis
      using nr by (simp add: user_changed_def log_def)
  qed
  obtain res w2 where c: "effect_callback native 0 1 effect wt = (res, w2)"
    by (cases "effect_callback native 0 1 effect wt")
  show ?thesis
    using u t c callback_cleanup(2) [OF c] nr nt
    by (auto simp: useEffect_def split: if_splits option.splits sum.splits)
qed

lemma run_failed_cleanup:
  assumes "binder_inv native w" and "run native xs w = (Some e, w')"
  shows "cleanup w' = None"
  using assms
proof (induction xs arbitrary: w)
  case Nil
  then show ?case by simp
next
  case (Cons x xs)
  obtain r1 w1 where s: "step native x w = (r1, w1)"
    by (cases "step native x w")
  show ?case
  proof (cases r1)
    case None
    then have "binder_inv native w1" "run native xs w1 = (Some e, w')"
      using step_inv [OF Cons.prems(1) s] Cons.prems(2) s by simp_all
    then show ?thesis by (rule Cons.IH)
  next
    case (Some e1)
    then have "e1 = e" "w' = w1"
      using Cons.prems(2) s by simp_all
    then show ?thesis
      using step_failed_cleanup [OF Cons.prems(1)] s Some by simp
  qed
qed


section \<open>The fixtures, evaluated\<close>

lemma run_nil_init: "run True [] init = (None, init)"
  by simp

lemma rendered_init:
  "rendered True init =
     \<lparr>heap = [new_AbortController], hooks = [RBool True, RController 0],
        trace = [Created 0], mounted = False, lastDeps = None, cleanup = None,
        destroyed = False\<rparr>"
  by (simp add: rendered_def init_def)

lemma run_fallback_result:
  "run False run_fallback init = (None,
     \<lparr>heap = [mockAbortController, mockAbortController],
        hooks = [RBool False, RController 1],
        trace = [Created 0, EffectCall (SignalObj 0), AbortCall User 0, AbortCall Binder 0,
                 Created 1, EffectCall (SignalObj 1), AbortCall Binder 1],
        mounted = True, lastDeps = None, cleanup = None, destroyed = True\<rparr>)"
  by (simp add: run_fallback_def init_def model_defs)

lemma run_listen_result:
  "run True run_listen init = (None,
     \<lparr>heap = [\<lparr>kind = Native, aborted = False, listeners = [7]\<rparr>],
        hooks = [RBool False, RController 0],
        trace = [Created 0, EffectCall (SignalObj 0)],
        mounted = True, lastDeps = None, cleanup = Some (DefaultCleanup 0),
        destroyed = False\<rparr>)"
  by (simp add: run_listen_def init_def model_defs)

lemma run_manual_result:
  "run True run_manual init = (None,
     \<lparr>heap = [\<lparr>kind = Native, aborted = True, listeners = [7]\<rparr>],
        hooks = [RBool False, RController 0],
        trace = [Created 0, EffectCall (SignalObj 0), AbortCall User 0, Notified 0 7],
        mounted = True, lastDeps = None, cleanup = Some (DefaultCleanup 0),
        destroyed = False\<rparr>)"
  by (simp add: run_manual_def init_def model_defs)

lemma run_lifecycle_result:
  "run True run_lifecycle init = (None,
     \<lparr>heap = [\<lparr>kind = Native, aborted = True, listeners = []\<rparr>,
              \<lparr>kind = Native, aborted = True, listeners = []\<rparr>,
              \<lparr>kind = Native, aborted = True, listeners = []\<rparr>],
        hooks = [RBool False, RController 2],
        trace = [Created 0, EffectCall (SignalObj 0), AbortCall Binder 0,
                 Created 1, EffectCall (SignalObj 1),
                 CleanupCall cleanup_abort (ControllerObj 1), AbortCall User 1,
                 Created 2, EffectCall (SignalObj 2), AbortCall Binder 2],
        mounted = True, lastDeps = deps_a 4, cleanup = None, destroyed = True\<rparr>)"
  by (simp add: run_lifecycle_def init_def model_defs)

lemma run_deps_a_result:
  "run True run_deps_a init = (None,
     \<lparr>heap = [\<lparr>kind = Native, aborted = False, listeners = [7]\<rparr>],
        hooks = [RBool False, RController 0],
        trace = [Created 0, EffectCall (SignalObj 0)],
        mounted = True, lastDeps = deps_a 1, cleanup = Some (DefaultCleanup 0),
        destroyed = False\<rparr>)"
  by (simp add: run_deps_a_def init_def model_defs)

lemma run_keep_result:
  "run True run_keep init = (None,
     \<lparr>heap = [\<lparr>kind = Native, aborted = False, listeners = []\<rparr>],
        hooks = [RBool False, RController 0],
        trace = [Created 0, EffectCall (SignalObj 0)],
        mounted = True, lastDeps = deps_a 1, cleanup = Some (CustomCleanup cleanup_keep 0),
        destroyed = False\<rparr>)"
  by (simp add: run_keep_def init_def model_defs)

lemma run_first_a_result:
  "run True run_first_a init = (None,
     \<lparr>heap = [\<lparr>kind = Native, aborted = False, listeners = []\<rparr>],
        hooks = [RBool False, RController 0],
        trace = [Created 0, EffectCall (SignalObj 0)],
        mounted = True, lastDeps = deps_a 1, cleanup = Some (DefaultCleanup 0),
        destroyed = False\<rparr>)"
  by (simp add: run_first_a_def init_def model_defs)

lemma run_cleanup_throw_result:
  "run True run_cleanup_throw init = (None,
     \<lparr>heap = [\<lparr>kind = Native, aborted = False, listeners = []\<rparr>],
        hooks = [RBool False, RController 0],
        trace = [Created 0, EffectCall (SignalObj 0)],
        mounted = True, lastDeps = deps_a 1, cleanup = Some (CustomCleanup cleanup_throw 0),
        destroyed = False\<rparr>)"
  by (simp add: run_cleanup_throw_def init_def model_defs)

lemma run_throw_result:
  "run True run_throw init = (Some (Thrown ''boom''),
     \<lparr>heap = [\<lparr>kind = Native, aborted = False, listeners = []\<rparr>],
        hooks = [RBool False, RController 0],
        trace = [Created 0, EffectCall (SignalObj 0)],
        mounted = True, lastDeps = None, cleanup = None, destroyed = False\<rparr>)"
  by (simp add: run_throw_def init_def model_defs)

lemma two_handles_result:
  "two_handles =
     \<lparr>heap = [\<lparr>kind = Native, aborted = False, listeners = []\<rparr>,
              \<lparr>kind = Native, aborted = False, listeners = []\<rparr>],
        hooks = [RBool False, RController 1],
        trace = [Created 0, EffectCall (SignalObj 0), Created 1, EffectCall (SignalObj 1)],
        mounted = True, lastDeps = deps_a 1, cleanup = Some (DefaultCleanup 0),
        destroyed = False\<rparr>"
  unfolding two_handles_def run_first_a_result snd_conv
  by (simp add: model_defs)

section \<open>C1: the default teardown\<close>

text \<open>
  C1. Let \<open>w\<close> be a state a run reached without an exception, the component not
  destroyed. First: a render that runs the effect (the first one, or one with a changed
  dependency list), with an effect function that returns something that is not a function
  when it is called with the signal of this activation's handle (the handle at the next
  free address), and that ends without an exception, registers the default teardown for the
  handle \<open>h\<close> of this activation: the handle the reference points to, whose signal the
  effect function was just called with. Second: whenever the default teardown for \<open>h\<close> is registered in
  \<open>w\<close>, \<open>h\<close> is the handle of the last activation; destruction calls \<^verbatim>\<open>abort()\<close> on
  \<open>h\<close> (what follows in the trace are notifications only) and registers nothing; a render
  with a changed dependency list calls \<^verbatim>\<open>abort()\<close> on \<open>h\<close> before anything else, and no
  other teardown in that render; with the native primitive \<open>h\<close> is aborted afterwards in
  both cases. A render with an unchanged list changes nothing but the remembered list, and
  the caller's own code leaves the registration alone and runs no teardown.
\<close>

theorem default_teardown_aborts_activation_handle:
  assumes "run native xs init = (None, w)" and "\<not> destroyed w"
  shows
   "(\<forall>effect ds w1.
       (\<not> mounted w \<or> depsChanged (lastDeps w) ds) \<and>
       (\<forall>v. \<exists>x. snd (effect (SignalObj (length (heap w))) v) = Inr (RetOther x)) \<and>
       step native (Render effect ds) w = (None, w1) \<longrightarrow>
       (\<exists>h. cleanup w1 = Some (DefaultCleanup h) \<and> hooks w1 ! 1 = RController h \<and>
            last (activations (trace w1)) = SignalObj h)) \<and>
    (\<forall>h. cleanup w = Some (DefaultCleanup h) \<longrightarrow>
       last (activations (trace w)) = SignalObj h \<and>
       (\<exists>w' evs. step native Unmount w = (None, w') \<and>
          trace w' = trace w @ AbortCall Binder h # evs \<and> list_all notified evs \<and>
          (native \<longrightarrow> aborted (heap w' ! h)) \<and> cleanup w' = None) \<and>
       (\<forall>effect ds. depsChanged (lastDeps w) ds \<longrightarrow>
          (\<exists>r w' evs. step native (Render effect ds) w = (r, w') \<and>
             trace w' = trace w @ AbortCall Binder h # evs \<and> teardowns evs = [] \<and>
             (native \<longrightarrow> aborted (heap w' ! h)))) \<and>
       (\<forall>effect ds. \<not> depsChanged (lastDeps w) ds \<longrightarrow>
          step native (Render effect ds) w = (None, w\<lparr>lastDeps := ds\<rparr>)) \<and>
       (\<forall>f. \<exists>w'. step native (External f) w = (None, w') \<and> cleanup w' = cleanup w \<and>
          teardowns (trace w') = teardowns (trace w)))"
proof -
  have i: "binder_inv native w"
    using reach(4) [OF assms(1)] by simp
  note nd = assms(2)
  have A: "\<exists>h. cleanup w1 = Some (DefaultCleanup h) \<and> hooks w1 ! 1 = RController h \<and>
            last (activations (trace w1)) = SignalObj h"
    if f: "\<not> mounted w \<or> depsChanged (lastDeps w) ds"
      and ret: "\<forall>v. \<exists>x. snd (effect (SignalObj (length (heap w))) v) = Inr (RetOther x)"
      and s: "step native (Render effect ds) w = (None, w1)" for effect ds w1
  proof -
    obtain td v where td: "cleanup w1 = Some td"
      and reg: "registered (length (heap w))
                  (snd (effect (SignalObj (length (heap w))) v)) = Inr td"
      and hk: "hooks w1 = [RBool False, RController (length (heap w))]"
      and la: "last (activations (trace w1)) = SignalObj (length (heap w))"
      using activate_shape [OF i nd f s] by blast
    obtain x where "snd (effect (SignalObj (length (heap w))) v) = Inr (RetOther x)"
      using ret by blast
    then have "td = DefaultCleanup (length (heap w))"
      using reg by simp
    then show ?thesis
      using td hk la by simp
  qed
  have B: "last (activations (trace w)) = SignalObj h \<and>
       (\<exists>w' evs. step native Unmount w = (None, w') \<and>
          trace w' = trace w @ AbortCall Binder h # evs \<and> list_all notified evs \<and>
          (native \<longrightarrow> aborted (heap w' ! h)) \<and> cleanup w' = None) \<and>
       (\<forall>effect ds. depsChanged (lastDeps w) ds \<longrightarrow>
          (\<exists>r w' evs. step native (Render effect ds) w = (r, w') \<and>
             trace w' = trace w @ AbortCall Binder h # evs \<and> teardowns evs = [] \<and>
             (native \<longrightarrow> aborted (heap w' ! h)))) \<and>
       (\<forall>effect ds. \<not> depsChanged (lastDeps w) ds \<longrightarrow>
          step native (Render effect ds) w = (None, w\<lparr>lastDeps := ds\<rparr>)) \<and>
       (\<forall>f. \<exists>w'. step native (External f) w = (None, w') \<and> cleanup w' = cleanup w \<and>
          teardowns (trace w') = teardowns (trace w))"
    if c: "cleanup w = Some (DefaultCleanup h)" for h
  proof -
    note reg = inv_registered [OF i c]
    have hl: "h < length (heap w)" and la: "last (activations (trace w)) = SignalObj h"
      and mo: "mounted w"
      using reg by simp_all
    have k: "native \<longrightarrow> kind (heap w ! h) = Native"
      using inv_kind [OF i hl] by simp
    have tdc: "teardown_call (DefaultCleanup h) w0 =
        (None, abort h (log (AbortCall Binder h) w0))" for w0
      by simp
    have shape: "\<exists>evs. trace (abort h (log (AbortCall Binder h) w0)) =
          trace w @ AbortCall Binder h # evs \<and> list_all notified evs \<and>
          (native \<longrightarrow> aborted (heap (abort h (log (AbortCall Binder h) w0)) ! h)) \<and>
          length (heap (abort h (log (AbortCall Binder h) w0))) = length (heap w) \<and>
          cleanup (abort h (log (AbortCall Binder h) w0)) = cleanup w0"
      if "heap w0 = heap w" "trace w0 = trace w" for w0
    proof -
      let ?wl = "log (AbortCall Binder h) w0"
      obtain evs where "trace (abort h ?wl) = trace ?wl @ evs" "list_all notified evs"
        using abort_trace by blast
      moreover have "native \<longrightarrow> aborted (heap (abort h ?wl) ! h)"
        using abort_aborted(1) [of h ?wl] hl k that by (simp add: log_def)
      moreover have "length (heap (abort h ?wl)) = length (heap w)"
        using that by (simp add: abort_def native_abort_def Let_def log_def)
      moreover have "cleanup (abort h ?wl) = cleanup w0"
        by (simp add: abort_def native_abort_def Let_def log_def)
      ultimately show ?thesis
        using that by (simp add: log_def)
    qed
    have U: "\<exists>w' evs. step native Unmount w = (None, w') \<and>
          trace w' = trace w @ AbortCall Binder h # evs \<and> list_all notified evs \<and>
          (native \<longrightarrow> aborted (heap w' ! h)) \<and> cleanup w' = None"
      using unmount_eq [OF i nd c] tdc shape [of "w\<lparr>cleanup := None, destroyed := True\<rparr>"]
      by auto
    have R: "\<exists>r w' evs. step native (Render effect ds) w = (r, w') \<and>
             trace w' = trace w @ AbortCall Binder h # evs \<and> teardowns evs = [] \<and>
             (native \<longrightarrow> aborted (heap w' ! h))"
      if f: "depsChanged (lastDeps w) ds" for effect ds
    proof -
      obtain r w' where s: "step native (Render effect ds) w = (r, w')"
        by (cases "step native (Render effect ds) w")
      let ?wt = "abort h (log (AbortCall Binder h) (w\<lparr>cleanup := None\<rparr>))"
      obtain evs where evs: "trace w' = trace ?wt @ evs" "teardowns evs = []"
        and hm: "heap_mono ?wt w'"
        using fire_shape [OF i nd c f s] tdc by auto
      obtain nevs where n: "trace ?wt = trace w @ AbortCall Binder h # nevs"
        "list_all notified nevs" "native \<longrightarrow> aborted (heap ?wt ! h)"
        "length (heap ?wt) = length (heap w)"
        using shape [of "w\<lparr>cleanup := None\<rparr>"] by auto
      have "teardowns (nevs @ evs) = []"
        using evs(2) teardowns_neutral [OF notified_neutral [OF n(2)]]
        by (simp add: teardowns_append)
      moreover have "native \<longrightarrow> aborted (heap w' ! h)"
        using hm n(3,4) hl by (auto simp: heap_mono_def)
      moreover have "trace w' = trace w @ AbortCall Binder h # (nevs @ evs)"
        using evs(1) n(1) by simp
      ultimately show ?thesis
        using s by blast
    qed
    have Q: "step native (Render effect ds) w = (None, w\<lparr>lastDeps := ds\<rparr>)"
      if "\<not> depsChanged (lastDeps w) ds" for effect ds
      using quiet_render [OF mo nd i that] .
    have E: "\<exists>w'. step native (External f) w = (None, w') \<and> cleanup w' = cleanup w \<and>
          teardowns (trace w') = teardowns (trace w)" for f
      using external_keeps [of native f w] by (cases "step native (External f) w") auto
    show ?thesis
      using la U R Q E by blast
  qed
  show ?thesis
    using A B by blast
qed

theorem default_teardown_aborts_activation_handle_witness:
  "\<not> destroyed init \<and> \<not> mounted init \<and>
   (\<forall>arg v. snd (effect_nothing arg v) = Inr (RetOther JUndefined)) \<and>
   (\<exists>w1. step True (Render effect_nothing (deps_a 1)) init = (None, w1) \<and>
      cleanup w1 = Some (DefaultCleanup 0) \<and> hooks w1 ! 1 = RController 0 \<and>
      last (activations (trace w1)) = SignalObj 0) \<and>
   \<not> destroyed (snd (run True run_deps_a init)) \<and>
   cleanup (snd (run True run_deps_a init)) = Some (DefaultCleanup 0) \<and>
   depsChanged (lastDeps (snd (run True run_deps_a init))) (deps_b 2) \<and>
   \<not> depsChanged (lastDeps (snd (run True run_deps_a init))) (deps_a 2) \<and>
   trace (snd (step True Unmount (snd (run True run_deps_a init)))) =
     trace (snd (run True run_deps_a init)) @ [AbortCall Binder 0, Notified 0 7] \<and>
   aborted (heap (snd (step True Unmount (snd (run True run_deps_a init)))) ! 0) \<and>
   trace (snd (step True (Render effect_nothing (deps_b 2)) (snd (run True run_deps_a init)))) =
     trace (snd (run True run_deps_a init)) @
       [AbortCall Binder 0, Notified 0 7, Created 1, EffectCall (SignalObj 1)] \<and>
   aborted (heap (snd (step True (Render effect_nothing (deps_b 2))
                         (snd (run True run_deps_a init)))) ! 0) \<and>
   trace (snd (step True (Render effect_nothing (deps_a 2)) (snd (run True run_deps_a init)))) =
     trace (snd (run True run_deps_a init))"
proof -
  have nd: "\<not> destroyed init" "\<not> destroyed (snd (run True run_deps_a init))"
    by (simp_all add: run_deps_a_result) (simp add: init_def)
  note at_init = default_teardown_aborts_activation_handle [OF run_nil_init nd(1)]
  have r: "run True run_deps_a init = (None, snd (run True run_deps_a init))"
    by (simp add: run_deps_a_result)
  note at_a = default_teardown_aborts_activation_handle [OF r nd(2)]
  have c: "cleanup (snd (run True run_deps_a init)) = Some (DefaultCleanup 0)"
    by (simp add: run_deps_a_result)
  have "\<exists>w' evs. step True Unmount (snd (run True run_deps_a init)) = (None, w') \<and>
      trace w' = trace (snd (run True run_deps_a init)) @ AbortCall Binder 0 # evs \<and>
      list_all notified evs \<and> (True \<longrightarrow> aborted (heap w' ! 0)) \<and> cleanup w' = None"
    using at_a [THEN conjunct2, rule_format, OF c, THEN conjunct2, THEN conjunct1] .
  then have ab: "aborted (heap (snd (step True Unmount (snd (run True run_deps_a init)))) ! 0)"
    by auto
  have ev: ?thesis
    unfolding run_deps_a_result snd_conv
    by (simp add: init_def model_defs)
  from at_init ab show ?thesis
    by - (rule ev)
qed

section \<open>C2: a custom cleanup\<close>

text \<open>
  C2. Let \<open>w\<close> be a state a run reached without an exception, the component not
  destroyed. First: a render that runs the effect, with an effect function that returns
  the function \<open>f\<close> when it is called with the signal of this activation's handle, and
  that ends without an exception, registers the call of \<open>f\<close> with the handle \<open>h\<close> of this
  activation. Second: whenever that is registered in \<open>w\<close>, \<open>h\<close>
  is the handle of the last activation; destruction is exactly one call of \<open>f\<close> with the
  handle \<open>h\<close> (not its signal): the new state is what the calls \<open>f\<close> makes leave, the
  exception is the one \<open>f\<close> throws, and the trace grows by that call and the events of the
  caller's code, so the default \<^verbatim>\<open>controller.abort()\<close> is not among them. A render with a
  changed dependency list calls \<open>f\<close> with \<open>h\<close> before anything else, and no other
  teardown (no default abort, no second call of a cleanup) in that render. A render with an
  unchanged list and the caller's own code leave the registration alone and run no
  teardown.
\<close>

theorem custom_cleanup_replaces_default_abort:
  assumes "run native xs init = (None, w)" and "\<not> destroyed w"
  shows
   "(\<forall>effect ds w1 f.
       (\<not> mounted w \<or> depsChanged (lastDeps w) ds) \<and>
       (\<forall>v. snd (effect (SignalObj (length (heap w))) v) = Inr (RetFunction f)) \<and>
       step native (Render effect ds) w = (None, w1) \<longrightarrow>
       (\<exists>h. cleanup w1 = Some (CustomCleanup f h) \<and> hooks w1 ! 1 = RController h \<and>
            last (activations (trace w1)) = SignalObj h)) \<and>
    (\<forall>f h. cleanup w = Some (CustomCleanup f h) \<longrightarrow>
       last (activations (trace w)) = SignalObj h \<and>
       (\<exists>w' evs. step native Unmount w =
            (map_option Thrown (snd (f (ControllerObj h) (view_of w))), w') \<and>
          w' = run_uops (fst (f (ControllerObj h) (view_of w)))
                 (log (CleanupCall f (ControllerObj h)) (w\<lparr>cleanup := None, destroyed := True\<rparr>)) \<and>
          trace w' = trace w @ CleanupCall f (ControllerObj h) # evs \<and> list_all neutral evs) \<and>
       (\<forall>effect ds. depsChanged (lastDeps w) ds \<longrightarrow>
          (\<exists>r w' evs. step native (Render effect ds) w = (r, w') \<and>
             trace w' = trace w @ CleanupCall f (ControllerObj h) # evs \<and> teardowns evs = [])) \<and>
       (\<forall>effect ds. \<not> depsChanged (lastDeps w) ds \<longrightarrow>
          step native (Render effect ds) w = (None, w\<lparr>lastDeps := ds\<rparr>)) \<and>
       (\<forall>g. \<exists>w'. step native (External g) w = (None, w') \<and> cleanup w' = cleanup w \<and>
          teardowns (trace w') = teardowns (trace w)))"
proof -
  have i: "binder_inv native w"
    using reach(4) [OF assms(1)] by simp
  note nd = assms(2)
  have A: "\<exists>h. cleanup w1 = Some (CustomCleanup f h) \<and> hooks w1 ! 1 = RController h \<and>
            last (activations (trace w1)) = SignalObj h"
    if f: "\<not> mounted w \<or> depsChanged (lastDeps w) ds"
      and ret: "\<forall>v. snd (effect (SignalObj (length (heap w))) v) = Inr (RetFunction f)"
      and s: "step native (Render effect ds) w = (None, w1)" for effect ds w1 f
  proof -
    obtain td v where td: "cleanup w1 = Some td"
      and reg: "registered (length (heap w))
                  (snd (effect (SignalObj (length (heap w))) v)) = Inr td"
      and hk: "hooks w1 = [RBool False, RController (length (heap w))]"
      and la: "last (activations (trace w1)) = SignalObj (length (heap w))"
      using activate_shape [OF i nd f s] by blast
    have "td = CustomCleanup f (length (heap w))"
      using reg ret by simp
    then show ?thesis
      using td hk la by simp
  qed
  have B: "last (activations (trace w)) = SignalObj h \<and>
       (\<exists>w' evs. step native Unmount w =
            (map_option Thrown (snd (f (ControllerObj h) (view_of w))), w') \<and>
          w' = run_uops (fst (f (ControllerObj h) (view_of w)))
                 (log (CleanupCall f (ControllerObj h)) (w\<lparr>cleanup := None, destroyed := True\<rparr>)) \<and>
          trace w' = trace w @ CleanupCall f (ControllerObj h) # evs \<and> list_all neutral evs) \<and>
       (\<forall>effect ds. depsChanged (lastDeps w) ds \<longrightarrow>
          (\<exists>r w' evs. step native (Render effect ds) w = (r, w') \<and>
             trace w' = trace w @ CleanupCall f (ControllerObj h) # evs \<and> teardowns evs = [])) \<and>
       (\<forall>effect ds. \<not> depsChanged (lastDeps w) ds \<longrightarrow>
          step native (Render effect ds) w = (None, w\<lparr>lastDeps := ds\<rparr>)) \<and>
       (\<forall>g. \<exists>w'. step native (External g) w = (None, w') \<and> cleanup w' = cleanup w \<and>
          teardowns (trace w') = teardowns (trace w))"
    if c: "cleanup w = Some (CustomCleanup f h)" for f h
  proof -
    note reg = inv_registered [OF i c]
    have la: "last (activations (trace w)) = SignalObj h" and mo: "mounted w"
      using reg by simp_all
    have U: "\<exists>w' evs. step native Unmount w =
            (map_option Thrown (snd (f (ControllerObj h) (view_of w))), w') \<and>
          w' = run_uops (fst (f (ControllerObj h) (view_of w)))
                 (log (CleanupCall f (ControllerObj h)) (w\<lparr>cleanup := None, destroyed := True\<rparr>)) \<and>
          trace w' = trace w @ CleanupCall f (ControllerObj h) # evs \<and> list_all neutral evs"
      using custom_call [of "w\<lparr>cleanup := None, destroyed := True\<rparr>" w f h]
      unfolding unmount_eq [OF i nd c] by simp
    have R: "\<exists>r w' evs. step native (Render effect ds) w = (r, w') \<and>
             trace w' = trace w @ CleanupCall f (ControllerObj h) # evs \<and> teardowns evs = []"
      if f: "depsChanged (lastDeps w) ds" for effect ds
    proof -
      obtain r w' where s: "step native (Render effect ds) w = (r, w')"
        by (cases "step native (Render effect ds) w")
      obtain r1 wt evs where t: "teardown_call (CustomCleanup f h) (w\<lparr>cleanup := None\<rparr>) = (r1, wt)"
        and evs: "trace w' = trace wt @ evs" "teardowns evs = []"
        using fire_shape [OF i nd c f s] by blast
      obtain nevs where n: "trace wt = trace w @ CleanupCall f (ControllerObj h) # nevs"
        "list_all neutral nevs"
        using custom_call [of "w\<lparr>cleanup := None\<rparr>" w f h] t by auto
      have "teardowns (nevs @ evs) = []"
        using evs(2) teardowns_neutral [OF n(2)] by (simp add: teardowns_append)
      moreover have "trace w' = trace w @ CleanupCall f (ControllerObj h) # (nevs @ evs)"
        using evs(1) n(1) by simp
      ultimately show ?thesis
        using s by blast
    qed
    have Q: "step native (Render effect ds) w = (None, w\<lparr>lastDeps := ds\<rparr>)"
      if "\<not> depsChanged (lastDeps w) ds" for effect ds
      using quiet_render [OF mo nd i that] .
    have E: "\<exists>w'. step native (External g) w = (None, w') \<and> cleanup w' = cleanup w \<and>
          teardowns (trace w') = teardowns (trace w)" for g
      using external_keeps [of native g w] by (cases "step native (External g) w") auto
    show ?thesis
      using la U R Q E by blast
  qed
  show ?thesis
    using A B by blast
qed

theorem custom_cleanup_replaces_default_abort_witness:
  "\<not> destroyed init \<and> \<not> mounted init \<and>
   (\<forall>arg v. snd (effect_keep arg v) = Inr (RetFunction cleanup_keep)) \<and>
   (\<exists>w1. step True (Render effect_keep (deps_a 1)) init = (None, w1) \<and>
      cleanup w1 = Some (CustomCleanup cleanup_keep 0) \<and> hooks w1 ! 1 = RController 0 \<and>
      last (activations (trace w1)) = SignalObj 0) \<and>
   \<not> destroyed (snd (run True run_keep init)) \<and>
   cleanup (snd (run True run_keep init)) = Some (CustomCleanup cleanup_keep 0) \<and>
   depsChanged (lastDeps (snd (run True run_keep init))) (deps_b 2) \<and>
   \<not> depsChanged (lastDeps (snd (run True run_keep init))) (deps_a 2) \<and>
   trace (snd (step True Unmount (snd (run True run_keep init)))) =
     trace (snd (run True run_keep init)) @ [CleanupCall cleanup_keep (ControllerObj 0)] \<and>
   \<not> aborted (heap (snd (step True Unmount (snd (run True run_keep init)))) ! 0) \<and>
   trace (snd (step True (Render effect_nothing (deps_b 2)) (snd (run True run_keep init)))) =
     trace (snd (run True run_keep init)) @
       [CleanupCall cleanup_keep (ControllerObj 0), Created 1, EffectCall (SignalObj 1)] \<and>
   \<not> aborted (heap (snd (step True (Render effect_nothing (deps_b 2))
                           (snd (run True run_keep init)))) ! 0) \<and>
   trace (snd (step True (Render effect_nothing (deps_a 2)) (snd (run True run_keep init)))) =
     trace (snd (run True run_keep init))"
proof -
  have nd: "\<not> destroyed init" "\<not> destroyed (snd (run True run_keep init))"
    by (simp_all add: run_keep_result) (simp add: init_def)
  have r: "run True run_keep init = (None, snd (run True run_keep init))"
    by (simp add: run_keep_result)
  note at_init = custom_cleanup_replaces_default_abort [OF run_nil_init nd(1)]
  note at_k = custom_cleanup_replaces_default_abort [OF r nd(2)]
  have c: "cleanup (snd (run True run_keep init)) = Some (CustomCleanup cleanup_keep 0)"
    by (simp add: run_keep_result)
  have "\<exists>w' evs. step True Unmount (snd (run True run_keep init)) =
        (map_option Thrown (snd (cleanup_keep (ControllerObj 0)
           (view_of (snd (run True run_keep init))))), w') \<and>
      w' = run_uops (fst (cleanup_keep (ControllerObj 0) (view_of (snd (run True run_keep init)))))
             (log (CleanupCall cleanup_keep (ControllerObj 0))
                ((snd (run True run_keep init))\<lparr>cleanup := None, destroyed := True\<rparr>)) \<and>
      trace w' = trace (snd (run True run_keep init)) @
                   CleanupCall cleanup_keep (ControllerObj 0) # evs \<and>
      list_all neutral evs"
    using at_k [THEN conjunct2, rule_format, OF c, THEN conjunct2, THEN conjunct1] .
  then have na: "\<not> aborted (heap (snd (step True Unmount (snd (run True run_keep init)))) ! 0)"
    by (auto simp: cleanup_keep_def run_uops_def log_def run_keep_result)
  have ev: ?thesis
    unfolding run_keep_result snd_conv
    by (simp add: init_def model_defs)
  from at_init na show ?thesis
    by - (rule ev)
qed

section \<open>C3: what the effect function is called with\<close>

text \<open>
  C3. One call of the function passed to \<^verbatim>\<open>useEffect\<close> (lines 108--125), in a state
  where \<^verbatim>\<open>firstRun.current\<close> is true exactly when the effect function has not been
  called yet and \<^verbatim>\<open>controllerRef.current\<close> is the handle \<open>c\<close>. The effect function is
  called once, with the signal of a handle \<open>h\<close> (an \<open>EffectCall (SignalObj h)\<close>; what
  follows in the trace are calls of the caller's code only), and what the host gets back is
  decided by its result at that argument. When it is called, the reference already points
  to \<open>h\<close>, and it still does afterwards. At the first activation \<open>h\<close> is \<open>c\<close>, no
  handle is constructed and the heap keeps its size; at a later one \<open>h\<close> is a new address,
  its construction comes right before the call, and the heap has one handle more.
\<close>

theorem effect_gets_signal_of_installed_handle:
  assumes "hooks w = [RBool (activations (trace w) = []), RController c]"
    and "effect_callback native 0 1 effect w = (res, w')"
  shows "\<exists>h hp evs.
     trace w' = trace w @ (if activations (trace w) = [] then [] else [Created h]) @
                  EffectCall (SignalObj h) # evs \<and>
     list_all neutral evs \<and>
     hooks w' = [RBool False, RController h] \<and>
     res = registered h (snd (effect (SignalObj h) (hp, [RBool False, RController h]))) \<and>
     (if activations (trace w) = []
      then h = c \<and> hp = heap w \<and> length (heap w') = length (heap w)
      else h = length (heap w) \<and>
           hp = heap w @ [if native then new_AbortController else mockAbortController] \<and>
           length (heap w') = Suc (length (heap w)))"
proof -
  define b where "b = (activations (trace w) = [])"
  define h where "h = (if b then c else length (heap w))"
  define w1 where "w1 = installed native w"
  have hk: "hooks w = [RBool b, RController c]"
    using assms(1) by (simp add: b_def)
  obtain ops out where er: "effect (SignalObj h) (view_of w1) = (ops, out)"
    by (cases "effect (SignalObj h) (view_of w1)")
  have res: "res = registered h out"
    and w': "w' = run_uops ops (log (EffectCall (SignalObj h)) w1)"
    using assms(2) er unfolding effect_callback_eq [OF hk] h_def w1_def
    by (simp_all add: Let_def)
  have u: "user_changed (log (EffectCall (SignalObj h)) w1) w'"
    unfolding w' by (rule user_changed_uops)
  then obtain evs where evs: "trace w' = trace (log (EffectCall (SignalObj h)) w1) @ evs"
    "list_all neutral evs"
    unfolding user_changed_def by blast
  have hooks1: "hooks w1 = [RBool False, RController h]"
    using hk by (simp add: w1_def h_def installed_def)
  have v: "view_of w1 = (heap w1, [RBool False, RController h])"
    using hooks1 by (simp add: view_of_def)
  have t1: "trace w1 = trace w @ (if b then [] else [Created h])"
    and hp1: "heap w1 = (if b then heap w
        else heap w @ [if native then new_AbortController else mockAbortController])"
    using hk by (auto simp: w1_def h_def installed_def)
  have hooks': "hooks w' = [RBool False, RController h]"
    and len: "length (heap w') = length (heap w1)"
    using u hooks1 by (simp_all add: user_changed_def log_def)
  have "trace w' = trace w @ (if b then [] else [Created h]) @ EffectCall (SignalObj h) # evs"
    using evs(1) t1 by (simp add: log_def)
  moreover have "res = registered h (snd (effect (SignalObj h) (heap w1, [RBool False, RController h])))"
    using res er v by simp
  moreover have "if b then h = c \<and> heap w1 = heap w \<and> length (heap w') = length (heap w)
      else h = length (heap w) \<and>
           heap w1 = heap w @ [if native then new_AbortController else mockAbortController] \<and>
           length (heap w') = Suc (length (heap w))"
    using hp1 len by (simp add: h_def)
  ultimately show ?thesis
    using evs(2) hooks' unfolding b_def by blast
qed

theorem effect_gets_signal_of_installed_handle_witness:
  "hooks (rendered True init) =
     [RBool (activations (trace (rendered True init)) = []), RController 0] \<and>
   activations (trace (rendered True init)) = [] \<and>
   effect_callback True 0 1 effect_listen (rendered True init) =
     (Inr (DefaultCleanup 0),
      \<lparr>heap = [\<lparr>kind = Native, aborted = False, listeners = [7]\<rparr>],
         hooks = [RBool False, RController 0],
         trace = [Created 0, EffectCall (SignalObj 0)], mounted = False, lastDeps = None,
         cleanup = None, destroyed = False\<rparr>) \<and>
   hooks (snd (run True run_listen init)) =
     [RBool (activations (trace (snd (run True run_listen init))) = []), RController 0] \<and>
   activations (trace (snd (run True run_listen init))) = [SignalObj 0] \<and>
   effect_callback True 0 1 effect_nothing (snd (run True run_listen init)) =
     (Inr (DefaultCleanup 1),
      \<lparr>heap = [\<lparr>kind = Native, aborted = False, listeners = [7]\<rparr>,
               \<lparr>kind = Native, aborted = False, listeners = []\<rparr>],
         hooks = [RBool False, RController 1],
         trace = [Created 0, EffectCall (SignalObj 0), Created 1, EffectCall (SignalObj 1)],
         mounted = True, lastDeps = None, cleanup = Some (DefaultCleanup 0),
         destroyed = False\<rparr>)"
proof -
  have h1: "hooks (rendered True init) =
      [RBool (activations (trace (rendered True init)) = []), RController 0]"
    by (simp add: rendered_init)
  have e1: "effect_callback True 0 1 effect_listen (rendered True init) =
      (Inr (DefaultCleanup 0), snd (effect_callback True 0 1 effect_listen (rendered True init)))"
    unfolding rendered_init by (simp add: model_defs)
  have h2: "hooks (snd (run True run_listen init)) =
      [RBool (activations (trace (snd (run True run_listen init))) = []), RController 0]"
    by (simp add: run_listen_result)
  have e2: "effect_callback True 0 1 effect_nothing (snd (run True run_listen init)) =
      (Inr (DefaultCleanup 1),
       snd (effect_callback True 0 1 effect_nothing (snd (run True run_listen init))))"
    unfolding run_listen_result snd_conv by (simp add: model_defs)
  note first = effect_gets_signal_of_installed_handle [OF h1 e1]
  note later = effect_gets_signal_of_installed_handle [OF h2 e2]
  have ev: ?thesis
    unfolding rendered_init run_listen_result snd_conv
    by (simp add: model_defs)
  from first later show ?thesis
    by - (rule ev)
qed

section \<open>C4: when the effect runs again\<close>




section \<open>C5: the reference the hook returns\<close>

text \<open>
  C5. In every state a run can reach, also one an exception ended: a render that returns
  returns the reference object \<open>1\<close>, the second reference object of the component, at
  every render the same; and once the component was rendered, \<^verbatim>\<open>current\<close> of that object
  is a handle that exists, native or the fallback according to the environment, and it is
  the handle whose signal the effect function was last called with.
\<close>

theorem reference_holds_latest_handle:
  assumes "run native xs init = (r, w)"
  shows
   "(\<forall>effect ds ref w'. useAbortableEffect native effect ds w = (Inr ref, w') \<longrightarrow> ref = 1) \<and>
    (hooks w \<noteq> [] \<longrightarrow>
       (\<exists>h. hooks w = [RBool False, RController h] \<and> h < length (heap w) \<and>
            kind (heap w ! h) = (if native then Native else Mock) \<and>
            last (activations (trace w)) = SignalObj h))"
proof -
  have i0: "binder_inv0 native w"
    using reach(1) [OF assms] by (simp add: binder_inv_failed_def)
  have a: "ref = 1" if "useAbortableEffect native effect ds w = (Inr ref, w')"
    for effect ds ref w'
    using that useAbortableEffect_eq [OF inv0_hooks [OF i0], of native effect ds]
    by (auto simp: Let_def split: prod.splits option.splits)
  have b: "\<exists>h. hooks w = [RBool False, RController h] \<and> h < length (heap w) \<and>
            kind (heap w ! h) = (if native then Native else Mock) \<and>
            last (activations (trace w)) = SignalObj h"
    if ne: "hooks w \<noteq> []"
  proof -
    obtain c where c: "hooks w = [RBool False, RController c]" "c < length (heap w)"
      "last (activations (trace w)) = SignalObj c"
      using i0 ne by (auto simp: binder_inv0_def split: if_splits)
    have "good native (heap w ! c)"
      using i0 c(2) by (simp add: binder_inv0_def list_all_length)
    then show ?thesis
      using c by (auto simp: good_def)
  qed
  show ?thesis
    using a b by blast
qed

theorem reference_holds_latest_handle_witness:
  "useAbortableEffect True effect_nothing (deps_a 1) init =
     (Inr 1, snd (run True run_first_a init)) \<and>
   fst (useAbortableEffect True effect_nothing (deps_b 3) (snd (run True run_first_a init))) =
     Inr 1 \<and>
   hooks (snd (run True run_first_a init)) = [RBool False, RController 0] \<and>
   last (activations (trace (snd (run True run_first_a init)))) = SignalObj 0 \<and>
   hooks (snd (run True run_lifecycle init)) = [RBool False, RController 2] \<and>
   length (heap (snd (run True run_lifecycle init))) = 3 \<and>
   kind (heap (snd (run True run_lifecycle init)) ! 2) = Native \<and>
   last (activations (trace (snd (run True run_lifecycle init)))) = SignalObj 2"
proof -
  have r: "run True [] init = (None, init)" by simp
  have u: "useAbortableEffect True effect_nothing (deps_a 1) init =
     (Inr 1, snd (run True run_first_a init))"
    unfolding run_first_a_result snd_conv by (simp add: init_def model_defs)
  have one: "(1::nat) = 1"
    using reference_holds_latest_handle [OF r, THEN conjunct1, rule_format, OF u] .
  note at_end = reference_holds_latest_handle [OF run_lifecycle_result]
  have ev: ?thesis
    unfolding run_first_a_result run_lifecycle_result snd_conv
    by (simp add: init_def model_defs)
  from one at_end show ?thesis
    by - (rule ev)
qed

section \<open>C6: the fallback handle\<close>

text \<open>
  C6. Without the native primitive (\<open>native = False\<close>), in every state a run can reach,
  also one an exception ended: the hook itself raised nothing; the handles constructed are
  exactly the ones in the heap; each of them is the mock literal, is not aborted, and
  \<^verbatim>\<open>abort\<close>, \<^verbatim>\<open>addEventListener\<close> and \<^verbatim>\<open>removeEventListener\<close> on it change nothing; no
  listener was ever notified. The last conjunct is \<^verbatim>\<open>createAbortController\<close> itself: what it
  returns is the mock literal.
\<close>

theorem fallback_handles_are_noops:
  assumes "run False xs init = (r, w)"
  shows "r \<noteq> Some TypeError \<and>
         created (trace w) = [0..<length (heap w)] \<and>
         (\<forall>h < length (heap w).
            heap w ! h = mockAbortController \<and> \<not> aborted (heap w ! h) \<and>
            abort h w = w \<and>
            (\<forall>l. addEventListener h l w = w \<and> removeEventListener h l w = w)) \<and>
         (\<forall>h l. Notified h l \<notin> set (trace w)) \<and>
         (\<forall>w0. heap (snd (createAbortController False w0)) ! fst (createAbortController False w0)
                = mockAbortController)"
proof -
  note rc = reach [OF assms]
  have g: "list_all (good False) (heap w)" and cr: "created (trace w) = [0..<length (heap w)]"
    using rc(1) by (simp_all add: binder_inv_failed_def binder_inv0_def)
  have m: "heap w ! h = mockAbortController" if "h < length (heap w)" for h
    using g that good_mock by (simp add: list_all_length)
  have k: "kind (heap w ! h) = Mock" "\<not> aborted (heap w ! h)" if "h < length (heap w)" for h
    using m [OF that] by (simp_all add: mockAbortController_def)
  have n: "Notified h l \<notin> set (trace w)" for h l
    using rc(2) k(1) [of h] by (auto simp: notif_ok_def)
  have c: "heap (snd (createAbortController False w0)) ! fst (createAbortController False w0)
      = mockAbortController" for w0
    by (simp add: createAbortController_def Let_def)
  show ?thesis
    using rc(3) cr m k n c
    by (simp add: abort_def addEventListener_def removeEventListener_def)
qed

theorem fallback_handles_are_noops_witness:
  "fst (run False run_fallback init) = None \<and>
   length (heap (snd (run False run_fallback init))) = 2 \<and>
   heap (snd (run False run_fallback init)) ! 0 = mockAbortController \<and>
   abort 0 (snd (run False run_fallback init)) = snd (run False run_fallback init) \<and>
   AbortCall User 0 \<in> set (trace (snd (run False run_fallback init))) \<and>
   Notified 0 7 \<notin> set (trace (snd (run False run_fallback init)))"
  using fallback_handles_are_noops [OF run_fallback_result]
  by (simp add: run_fallback_result)

section \<open>C7: abort on a handle\<close>

text \<open>
  C7, as amended. Let \<open>h\<close> be a handle in a state a run can reach. With the native
  primitive, \<^verbatim>\<open>abort()\<close> on \<open>h\<close> leaves it aborted; if it was not aborted before, the
  call notifies exactly the listeners registered on its signal, each once (the list has no
  repetition), and if it was, the call changes nothing. Calling twice is calling once.
  Over the whole run no listener of any handle was notified twice, and every handle on
  which anyone called \<^verbatim>\<open>abort()\<close>, at any moment of the run, is aborted. An aborted
  handle is aborted in every later state. Without the native primitive \<^verbatim>\<open>abort()\<close>
  changes nothing and the handle is not aborted.
\<close>

theorem abort_flips_native_handle_once:
  assumes "run native xs init = (r, w)" and "h < length (heap w)"
  shows "(native \<longrightarrow> aborted (heap (abort h w) ! h)) \<and>
         (\<not> native \<longrightarrow> abort h w = w \<and> \<not> aborted (heap w ! h)) \<and>
         (native \<and> \<not> aborted (heap w ! h) \<longrightarrow>
            trace (abort h w) = trace w @ map (Notified h) (listeners (heap w ! h)) \<and>
            distinct (listeners (heap w ! h))) \<and>
         (aborted (heap w ! h) \<longrightarrow> abort h w = w) \<and>
         abort h (abort h w) = abort h w \<and>
         distinct (filter notified (trace w)) \<and>
         (\<forall>k. native \<and> AbortCall k h \<in> set (trace w) \<longrightarrow> aborted (heap w ! h)) \<and>
         (\<forall>ys r' w'. aborted (heap w ! h) \<and> run native ys w = (r', w') \<longrightarrow>
            aborted (heap w' ! h))"
proof -
  note rc = reach [OF assms(1)]
  have g: "good native (heap w ! h)"
    using rc(1) assms(2) by (simp add: binder_inv_failed_def binder_inv0_def list_all_length)
  have k: "kind (heap w ! h) = (if native then Native else Mock)"
    and m: "\<not> native \<longrightarrow> \<not> aborted (heap w ! h)"
    using g by (auto simp: good_def)
  have a: "native \<longrightarrow> aborted (heap (abort h w) ! h)"
    using k assms(2) by (simp add: abort_def native_abort_def Let_def)
  have b: "\<not> native \<longrightarrow> abort h w = w"
    using k by (simp add: abort_def)
  have c: "native \<and> \<not> aborted (heap w ! h) \<longrightarrow>
      trace (abort h w) = trace w @ map (Notified h) (listeners (heap w ! h)) \<and>
      distinct (listeners (heap w ! h))"
    using k assms(2) rc(2) by (simp add: abort_def native_abort_def Let_def notif_ok_def)
  have d: "aborted (heap w ! h) \<longrightarrow> abort h w = w"
    by (simp add: abort_def native_abort_def Let_def)
  have e: "distinct (filter notified (trace w))"
    using rc(2) by (simp add: notif_ok_def)
  have f: "native \<and> AbortCall c h \<in> set (trace w) \<longrightarrow> aborted (heap w ! h)" for c
    using rc(2) k by (auto simp: notif_ok_def)
  have mono: "aborted (heap w ! h) \<and> run native ys w = (r', w') \<longrightarrow> aborted (heap w' ! h)"
    for ys r' w'
    using heap_mono_run [of native ys w r' w'] assms(2) by (auto simp: heap_mono_def)
  show ?thesis
    using a b m c d e f mono abort_idem by blast
qed

theorem abort_flips_native_handle_once_witness:
  "hooks (snd (run True run_listen init)) ! 1 = RController 0 \<and>
   0 < length (heap (snd (run True run_listen init))) \<and>
   \<not> aborted (heap (snd (run True run_listen init)) ! 0) \<and>
   aborted (heap (abort 0 (snd (run True run_listen init))) ! 0) \<and>
   trace (abort 0 (snd (run True run_listen init))) =
     trace (snd (run True run_listen init)) @ [Notified 0 7] \<and>
   aborted (heap (snd (run True run_manual init)) ! 0) \<and>
   AbortCall User 0 \<in> set (trace (snd (run True run_manual init))) \<and>
   abort 0 (snd (run True run_manual init)) = snd (run True run_manual init) \<and>
   aborted (heap (snd (run True [Render effect_nothing None, Unmount]
                         (snd (run True run_manual init)))) ! 0)"
proof -
  have r1: "run True run_listen init = (None, snd (run True run_listen init))"
    and l1: "0 < length (heap (snd (run True run_listen init)))"
    by (simp_all add: run_listen_result)
  have r2: "run True run_manual init = (None, snd (run True run_manual init))"
    and l2: "0 < length (heap (snd (run True run_manual init)))"
    by (simp_all add: run_manual_result)
  note before_abort = abort_flips_native_handle_once [OF r1 l1]
  note after_abort = abort_flips_native_handle_once [OF r2 l2]
  have "aborted (heap (abort 0 (snd (run True run_listen init))) ! 0)"
    using before_abort by simp
  moreover have ev: ?thesis
    unfolding run_listen_result run_manual_result snd_conv
    by (simp add: model_defs)
  ultimately show ?thesis
    using after_abort by - (rule ev)
qed

text \<open>C7 as stated fails on the fallback handle: the handle the reference exposes is
  handle \<open>0\<close>, the caller calls \<^verbatim>\<open>abort()\<close> on it, and afterwards it is not aborted
  and its listener was not notified.\<close>

theorem abort_on_fallback_counterexample:
  "hooks (snd (run False run_listen init)) ! 1 = RController 0 \<and>
   AbortCall User 0 \<in> set (trace (snd (run False run_manual init))) \<and>
   \<not> aborted (heap (snd (run False run_manual init)) ! 0) \<and>
   Notified 0 7 \<notin> set (trace (snd (run False run_manual init)))"
  by (simp add: run_listen_def run_manual_def init_def model_defs)

section \<open>C8: one teardown per activation, before the next one\<close>

text \<open>
  C8, as amended. In every state a run can reach, also one an exception ended: the trace
  passes \<open>scan\<close>, so no handle was constructed and the effect function was not called
  while an activated handle was waiting for its teardown, and every teardown was the one of
  the active handle; no handle was activated twice and none was torn down twice; the
  handles torn down are, in order and one for one, the handles activated, but for at most
  the last one. When no exception ended the run, that last one is the handle of the
  teardown still registered, and after destruction none is registered. When an exception
  ended the run, no teardown is registered, and a destruction that follows runs none. In
  particular an activation whose effect function throws gets no teardown: from a state
  reached without an exception, a render that runs the effect (its registered custom
  cleanup not throwing) with an effect function that throws on the signal of this
  activation's handle ends with that exception, the handle activated, nothing registered
  and the handle not torn down, and the destruction that follows changes nothing but the
  flag. Every handle other than the one the reference points to has had its teardown: a
  custom cleanup was called with it, or the default \<^verbatim>\<open>abort()\<close> was called on it, and
  then (with the native primitive) it is aborted.
\<close>

theorem teardown_precedes_next_activation:
  assumes "run native xs init = (r, w)"
  shows "scan None (trace w) \<noteq> None \<and>
         distinct (activations (trace w)) \<and>
         distinct (teardowns (trace w)) \<and>
         (\<exists>b. scan None (trace w) = Some b \<and>
            activations (trace w) = map SignalObj (teardowns (trace w)) @ stack b) \<and>
         (r = None \<longrightarrow>
            scan None (trace w) = Some (map_option td_handle (cleanup w)) \<and>
            activations (trace w) =
              map SignalObj (teardowns (trace w)) @ stack (map_option td_handle (cleanup w)) \<and>
            (destroyed w \<longrightarrow> cleanup w = None)) \<and>
         (r \<noteq> None \<longrightarrow>
            cleanup w = None \<and> trace (snd (step native Unmount w)) = trace w) \<and>
         (r = None \<and> \<not> destroyed w \<longrightarrow>
            (\<forall>effect ds msg r' w'.
               (\<not> mounted w \<or> depsChanged (lastDeps w) ds) \<and>
               (\<forall>g h. cleanup w = Some (CustomCleanup g h) \<longrightarrow>
                  snd (g (ControllerObj h) (view_of w)) = None) \<and>
               (\<forall>v. snd (effect (SignalObj (length (heap w))) v) = Inl msg) \<and>
               step native (Render effect ds) w = (r', w') \<longrightarrow>
               r' = Some (Thrown msg) \<and>
               activations (trace w') =
                 activations (trace w) @ [SignalObj (length (heap w))] \<and>
               cleanup w' = None \<and>
               length (heap w) \<notin> set (teardowns (trace w')) \<and>
               step native Unmount w' = (None, w'\<lparr>destroyed := True\<rparr>))) \<and>
         (\<forall>h < length (heap w). hooks w ! 1 \<noteq> RController h \<longrightarrow>
            (\<exists>f. CleanupCall f (ControllerObj h) \<in> set (trace w)) \<or>
            (AbortCall Binder h \<in> set (trace w) \<and> (native \<longrightarrow> aborted (heap w ! h))))"
proof -
  note rc = reach [OF assms]
  have i0: "binder_inv0 native w"
    using rc(1) by (simp add: binder_inv_failed_def)
  obtain b where b: "scan None (trace w) = Some b"
    using rc(1) by (auto simp: binder_inv_failed_def)
  have acts: "activations (trace w) = map SignalObj (teardowns (trace w)) @ stack b"
    using scan_teardowns [OF b] by simp
  have d: "distinct (activations (trace w))"
    using i0 by (simp add: binder_inv0_def)
  have dt: "distinct (teardowns (trace w))"
    using d unfolding acts by (simp add: distinct_map)
  have ex: "\<exists>b. scan None (trace w) = Some b \<and>
            activations (trace w) = map SignalObj (teardowns (trace w)) @ stack b"
    using b acts by blast
  have ok: "r = None \<longrightarrow>
      scan None (trace w) = Some (map_option td_handle (cleanup w)) \<and>
      activations (trace w) =
        map SignalObj (teardowns (trace w)) @ stack (map_option td_handle (cleanup w)) \<and>
      (destroyed w \<longrightarrow> cleanup w = None)"
  proof
    assume "r = None"
    then have i: "binder_inv native w" by (rule rc(4))
    then have s: "scan None (trace w) = Some (map_option td_handle (cleanup w))"
      by (simp add: binder_inv_def)
    have "destroyed w \<longrightarrow> cleanup w = None"
      using i0 by (auto simp: binder_inv0_def split: if_splits)
    then show "scan None (trace w) = Some (map_option td_handle (cleanup w)) \<and>
      activations (trace w) =
        map SignalObj (teardowns (trace w)) @ stack (map_option td_handle (cleanup w)) \<and>
      (destroyed w \<longrightarrow> cleanup w = None)"
      using s scan_teardowns [OF s] by simp
  qed
  have failed: "r \<noteq> None \<longrightarrow>
      cleanup w = None \<and> trace (snd (step native Unmount w)) = trace w"
  proof
    assume "r \<noteq> None"
    then obtain e where "run native xs init = (Some e, w)"
      using assms by auto
    then have "cleanup w = None"
      by (rule run_failed_cleanup [OF inv_init])
    then show "cleanup w = None \<and> trace (snd (step native Unmount w)) = trace w"
      by simp
  qed
  have throwing: "r' = Some (Thrown msg) \<and>
        activations (trace w') = activations (trace w) @ [SignalObj (length (heap w))] \<and>
        cleanup w' = None \<and>
        length (heap w) \<notin> set (teardowns (trace w')) \<and>
        step native Unmount w' = (None, w'\<lparr>destroyed := True\<rparr>)"
    if n: "r = None" and nd: "\<not> destroyed w"
      and f: "\<not> mounted w \<or> depsChanged (lastDeps w) ds"
      and q: "\<forall>g h. cleanup w = Some (CustomCleanup g h) \<longrightarrow>
                  snd (g (ControllerObj h) (view_of w)) = None"
      and th: "\<forall>v. snd (effect (SignalObj (length (heap w))) v) = Inl msg"
      and s: "step native (Render effect ds) w = (r', w')" for effect ds msg r' w'
  proof -
    have i: "binder_inv native w" using n by (rule rc(4))
    have a: "activations (trace w') = activations (trace w) @ [SignalObj (length (heap w))]"
      and r': "r' = Some (Thrown msg)"
      using render_activates [OF i nd f q s] th by auto
    have c: "cleanup w' = None"
      using step_failed_cleanup [OF i s [unfolded r']] .
    have fi: "binder_inv_failed native w'"
      using step_inv [OF i s] r' by simp
    then have m: "mounted w'"
      using a by (auto simp: binder_inv_failed_def binder_inv0_def split: if_splits)
    have nd': "\<not> destroyed w'"
      by (rule render_keeps_alive [OF i nd s])
    have t: "teardowns (trace w') =
        teardowns (trace w) @ (case cleanup w of None \<Rightarrow> [] | Some td \<Rightarrow> [td_handle td])"
      by (rule render_teardowns [OF i nd f s])
    have "length (heap w) \<notin> set (teardowns (trace w'))"
    proof
      assume "length (heap w) \<in> set (teardowns (trace w'))"
      then have "length (heap w) \<in> set (teardowns (trace w)) \<or>
          (\<exists>td. cleanup w = Some td \<and> td_handle td = length (heap w))"
        unfolding t by (cases "cleanup w") auto
      then show False
      proof
        assume "length (heap w) \<in> set (teardowns (trace w))"
        then show False
          using inv_teardowns_bound [OF i, of "length (heap w)"] by simp
      next
        assume "\<exists>td. cleanup w = Some td \<and> td_handle td = length (heap w)"
        then obtain td where "cleanup w = Some td" "td_handle td = length (heap w)"
          by blast
        then show False
          using inv_registered(3) [OF i, of td] by simp
      qed
    qed
    then show ?thesis
      using a r' c m nd' by simp
  qed
  have others: "(\<exists>f. CleanupCall f (ControllerObj h) \<in> set (trace w)) \<or>
            (AbortCall Binder h \<in> set (trace w) \<and> (native \<longrightarrow> aborted (heap w ! h)))"
    if h: "h < length (heap w)" and nc: "hooks w ! 1 \<noteq> RController h" for h
  proof -
    have hk: "hooks w \<noteq> []"
      using i0 h by (auto simp: binder_inv0_def split: if_splits)
    then obtain c where c: "hooks w = [RBool False, RController c]"
      and l: "last (activations (trace w)) = SignalObj c"
      using i0 by (auto simp: binder_inv0_def split: if_splits)
    have "SignalObj h \<in> set (activations (trace w))"
      using i0 h by (auto simp: binder_inv0_def)
    then have "h \<in> set (teardowns (trace w)) \<or> b = Some h"
      unfolding acts by (cases b) auto
    moreover have "b \<noteq> Some h"
    proof
      assume "b = Some h"
      then have "last (activations (trace w)) = SignalObj h"
        using acts by simp
      then show False using l c nc by simp
    qed
    ultimately have "h \<in> set (teardowns (trace w))" by simp
    moreover have "kind (heap w ! h) = (if native then Native else Mock)"
      using i0 h by (simp add: binder_inv0_def list_all_length good_def)
    ultimately show ?thesis
      using rc(2) unfolding teardowns_set notif_ok_def by auto
  qed
  have p1: "scan None (trace w) \<noteq> None" using b by simp
  show ?thesis
    using p1 d dt ex ok failed throwing others by blast
qed

theorem teardown_precedes_next_activation_witness:
  "fst (run True run_lifecycle init) = None \<and>
   destroyed (snd (run True run_lifecycle init)) \<and>
   length (heap (snd (run True run_lifecycle init))) = 3 \<and>
   hooks (snd (run True run_lifecycle init)) ! 1 = RController 2 \<and>
   scan None (trace (snd (run True run_lifecycle init))) = Some None \<and>
   activations (trace (snd (run True run_lifecycle init))) =
     [SignalObj 0, SignalObj 1, SignalObj 2] \<and>
   teardowns (trace (snd (run True run_lifecycle init))) = [0, 1, 2] \<and>
   AbortCall Binder 0 \<in> set (trace (snd (run True run_lifecycle init))) \<and>
   aborted (heap (snd (run True run_lifecycle init)) ! 0) \<and>
   fst (run True run_throw init) \<noteq> None \<and>
   cleanup (snd (run True run_throw init)) = None \<and>
   trace (snd (step True Unmount (snd (run True run_throw init)))) =
     trace (snd (run True run_throw init)) \<and>
   \<not> destroyed init \<and> \<not> mounted init \<and> cleanup init = None \<and>
   (\<forall>v. snd (effect_throw (SignalObj 0) v) = Inl ''boom'') \<and>
   step True (Render effect_throw None) init = run True run_throw init \<and>
   activations (trace (snd (run True run_throw init))) = [SignalObj 0] \<and>
   0 \<notin> set (teardowns (trace (snd (run True run_throw init)))) \<and>
   step True Unmount (snd (run True run_throw init)) =
     (None, (snd (run True run_throw init))\<lparr>destroyed := True\<rparr>)"
proof -
  note life = teardown_precedes_next_activation [OF run_lifecycle_result]
  note thrown = teardown_precedes_next_activation [OF run_throw_result]
  note at_init = teardown_precedes_next_activation [OF run_nil_init]
  have nd: "\<not> destroyed init" by (simp add: init_def)
  have h: "(\<not> mounted init \<or> depsChanged (lastDeps init) None) \<and>
      (\<forall>g h. cleanup init = Some (CustomCleanup g h) \<longrightarrow>
         snd (g (ControllerObj h) (view_of init)) = None) \<and>
      (\<forall>v. snd (effect_throw (SignalObj (length (heap init))) v) = Inl ''boom'') \<and>
      step True (Render effect_throw None) init =
        (fst (run True run_throw init), snd (run True run_throw init))"
    by (simp add: init_def run_throw_def effect_throw_def split: prod.splits option.splits)
  note boom = at_init [THEN conjunct2, THEN conjunct2, THEN conjunct2, THEN conjunct2,
      THEN conjunct2, THEN conjunct2, THEN conjunct1, rule_format, OF conjI [OF refl nd],
      rule_format, where effect = effect_throw and ds = None and msg = "''boom''", OF h]
  have ev: ?thesis
    unfolding run_lifecycle_result run_throw_result snd_conv fst_conv
    by (simp add: init_def model_defs)
  from life thrown boom show ?thesis
    by - (rule ev)
qed

text \<open>C8 as stated ("exactly one teardown runs per activation") fails for an effect
  function that throws: lines 118--124 return no closure then, so the activation of handle
  \<open>0\<close> has no teardown, and the destruction of the component runs none either.\<close>

theorem throwing_effect_gets_no_teardown_counterexample:
  "run True run_throw init =
     (Some (Thrown ''boom''),
      \<lparr>heap = [\<lparr>kind = Native, aborted = False, listeners = []\<rparr>],
         hooks = [RBool False, RController 0],
         trace = [Created 0, EffectCall (SignalObj 0)],
         mounted = True, lastDeps = None, cleanup = None, destroyed = False\<rparr>) \<and>
   activations (trace (snd (run True run_throw init))) = [SignalObj 0] \<and>
   teardowns (trace (snd (run True run_throw init))) = [] \<and>
   step True Unmount (snd (run True run_throw init)) =
     (None,
      \<lparr>heap = [\<lparr>kind = Native, aborted = False, listeners = []\<rparr>],
         hooks = [RBool False, RController 0],
         trace = [Created 0, EffectCall (SignalObj 0)],
         mounted = True, lastDeps = None, cleanup = None, destroyed = True\<rparr>) \<and>
   activations (trace (snd (step True Unmount (snd (run True run_throw init))))) =
     [SignalObj 0] \<and>
   teardowns (trace (snd (step True Unmount (snd (run True run_throw init))))) = []"
  by (simp add: run_throw_def init_def model_defs)

section \<open>C9: exceptions\<close>

text \<open>
  C9. No run ends with an exception of the hook's own (\<open>TypeError\<close>): whatever leaves it
  was thrown by a function of the caller. The default teardown never throws. From a state
  a run reached without an exception, the component not destroyed: when a render runs the
  effect and the effect function throws, that exception leaves the render and the hook
  (provided the registered custom cleanup, which runs first, does not throw itself); when
  the registered custom cleanup throws, that exception leaves the destruction, and leaves
  every render with a changed dependency list; and when neither the registered custom
  cleanup nor the effect function throws, a render ends without an exception, and so does
  a destruction.
\<close>

theorem callers_errors_leave_the_hook:
  assumes "run native xs init = (r0, w)"
  shows
   "r0 \<noteq> Some TypeError \<and>
    (\<forall>h w0. fst (teardown_call (DefaultCleanup h) w0) = None) \<and>
    (r0 = None \<and> \<not> destroyed w \<longrightarrow>
       (\<forall>effect ds msg.
          (\<not> mounted w \<or> depsChanged (lastDeps w) ds) \<and>
          (\<forall>g h. cleanup w = Some (CustomCleanup g h) \<longrightarrow>
             snd (g (ControllerObj h) (view_of w)) = None) \<and>
          (\<forall>v. snd (effect (SignalObj (length (heap w))) v) = Inl msg) \<longrightarrow>
          fst (step native (Render effect ds) w) = Some (Thrown msg) \<and>
          fst (useAbortableEffect native effect ds w) = Inl (Thrown msg)) \<and>
       (\<forall>g h msg.
          cleanup w = Some (CustomCleanup g h) \<and>
          snd (g (ControllerObj h) (view_of w)) = Some msg \<longrightarrow>
          fst (step native Unmount w) = Some (Thrown msg) \<and>
          (\<forall>effect ds. depsChanged (lastDeps w) ds \<longrightarrow>
             fst (step native (Render effect ds) w) = Some (Thrown msg))) \<and>
       (\<forall>effect ds.
          (\<forall>g h. cleanup w = Some (CustomCleanup g h) \<longrightarrow>
             snd (g (ControllerObj h) (view_of w)) = None) \<and>
          (\<forall>v. \<exists>x. snd (effect (SignalObj (length (heap w))) v) = Inr x) \<longrightarrow>
          fst (step native (Render effect ds) w) = None) \<and>
       ((\<forall>g h. cleanup w = Some (CustomCleanup g h) \<longrightarrow>
           snd (g (ControllerObj h) (view_of w)) = None) \<longrightarrow>
        fst (step native Unmount w) = None))"
proof -
  note rc = reach [OF assms]
  have d: "fst (teardown_call (DefaultCleanup h) w0) = None" for h w0
    by simp
  have rest: "(\<forall>effect ds msg.
          (\<not> mounted w \<or> depsChanged (lastDeps w) ds) \<and>
          (\<forall>g h. cleanup w = Some (CustomCleanup g h) \<longrightarrow>
             snd (g (ControllerObj h) (view_of w)) = None) \<and>
          (\<forall>v. snd (effect (SignalObj (length (heap w))) v) = Inl msg) \<longrightarrow>
          fst (step native (Render effect ds) w) = Some (Thrown msg) \<and>
          fst (useAbortableEffect native effect ds w) = Inl (Thrown msg)) \<and>
       (\<forall>g h msg.
          cleanup w = Some (CustomCleanup g h) \<and>
          snd (g (ControllerObj h) (view_of w)) = Some msg \<longrightarrow>
          fst (step native Unmount w) = Some (Thrown msg) \<and>
          (\<forall>effect ds. depsChanged (lastDeps w) ds \<longrightarrow>
             fst (step native (Render effect ds) w) = Some (Thrown msg))) \<and>
       (\<forall>effect ds.
          (\<forall>g h. cleanup w = Some (CustomCleanup g h) \<longrightarrow>
             snd (g (ControllerObj h) (view_of w)) = None) \<and>
          (\<forall>v. \<exists>x. snd (effect (SignalObj (length (heap w))) v) = Inr x) \<longrightarrow>
          fst (step native (Render effect ds) w) = None) \<and>
       ((\<forall>g h. cleanup w = Some (CustomCleanup g h) \<longrightarrow>
           snd (g (ControllerObj h) (view_of w)) = None) \<longrightarrow>
        fst (step native Unmount w) = None)"
    if ok: "r0 = None" and nd: "\<not> destroyed w"
  proof -
    have i: "binder_inv native w" using rc(4) [OF ok] .
    have E: "fst (step native (Render effect ds) w) = Some (Thrown msg) \<and>
          fst (useAbortableEffect native effect ds w) = Inl (Thrown msg)"
      if f: "\<not> mounted w \<or> depsChanged (lastDeps w) ds"
        and q: "\<forall>g h. cleanup w = Some (CustomCleanup g h) \<longrightarrow>
             snd (g (ControllerObj h) (view_of w)) = None"
        and th: "\<forall>v. snd (effect (SignalObj (length (heap w))) v) = Inl msg" for effect ds msg
    proof -
      obtain r w' where s: "step native (Render effect ds) w = (r, w')"
        by (cases "step native (Render effect ds) w")
      have "r = Some (Thrown msg)"
        using render_activates [OF i nd f q s] th by auto
      then have "fst (step native (Render effect ds) w) = Some (Thrown msg)"
        using s by simp
      then show ?thesis
        using step_render_fst [OF nd] by blast
    qed
    have C: "fst (step native Unmount w) = Some (Thrown msg) \<and>
          (\<forall>effect ds. depsChanged (lastDeps w) ds \<longrightarrow>
             fst (step native (Render effect ds) w) = Some (Thrown msg))"
      if c: "cleanup w = Some (CustomCleanup g h)"
        and th: "snd (g (ControllerObj h) (view_of w)) = Some msg" for g h msg
    proof -
      have "fst (step native Unmount w) = Some (Thrown msg)"
        using custom_call [of "w\<lparr>cleanup := None, destroyed := True\<rparr>" w g h] th
        unfolding unmount_eq [OF i nd c] by auto
      moreover have "fst (step native (Render effect ds) w) = Some (Thrown msg)"
        if f: "depsChanged (lastDeps w) ds" for effect ds
      proof -
        obtain r w' where s: "step native (Render effect ds) w = (r, w')"
          by (cases "step native (Render effect ds) w")
        obtain r1 wt where t: "teardown_call (CustomCleanup g h) (w\<lparr>cleanup := None\<rparr>) = (r1, wt)"
          and r: "r1 \<noteq> None \<longrightarrow> r = r1"
          using fire_shape [OF i nd c f s] by blast
        have "r1 = Some (Thrown msg)"
          using custom_call [of "w\<lparr>cleanup := None\<rparr>" w g h] th t by auto
        then show ?thesis using r s by simp
      qed
      ultimately show ?thesis by blast
    qed
    have N: "fst (step native (Render effect ds) w) = None"
      if q: "\<forall>g h. cleanup w = Some (CustomCleanup g h) \<longrightarrow>
             snd (g (ControllerObj h) (view_of w)) = None"
        and ret: "\<forall>v. \<exists>x. snd (effect (SignalObj (length (heap w))) v) = Inr x" for effect ds
    proof (cases "\<not> mounted w \<or> depsChanged (lastDeps w) ds")
      case True
      obtain r w' where s: "step native (Render effect ds) w = (r, w')"
        by (cases "step native (Render effect ds) w")
      obtain v where r: "r = (case registered (length (heap w))
                       (snd (effect (SignalObj (length (heap w))) v)) of
                  Inl e \<Rightarrow> Some e | Inr td \<Rightarrow> None)"
        using render_activates [OF i nd True q s] by blast
      obtain x where "snd (effect (SignalObj (length (heap w))) v) = Inr x"
        using ret by blast
      then have "r = None"
        using r registered_Inr [of "length (heap w)" x] by auto
      then show ?thesis using s by simp
    next
      case False
      then show ?thesis
        using quiet_render [OF _ nd i, of ds effect] by simp
    qed
    have U: "fst (step native Unmount w) = None"
      if q: "\<forall>g h. cleanup w = Some (CustomCleanup g h) \<longrightarrow>
             snd (g (ControllerObj h) (view_of w)) = None"
    proof (cases "cleanup w")
      case None
      then show ?thesis by simp
    next
      case (Some td)
      show ?thesis
      proof (cases td)
        case (CustomCleanup g h)
        then have c: "cleanup w = Some (CustomCleanup g h)" using Some by simp
        then have "snd (g (ControllerObj h) (view_of w)) = None" using q by simp
        then show ?thesis
          using custom_call [of "w\<lparr>cleanup := None, destroyed := True\<rparr>" w g h]
          unfolding unmount_eq [OF i nd c] by auto
      next
        case (DefaultCleanup h)
        then have c: "cleanup w = Some (DefaultCleanup h)" using Some by simp
        show ?thesis
          unfolding unmount_eq [OF i nd c] by simp
      qed
    qed
    show ?thesis
      using E C N U by blast
  qed
  show ?thesis
    using rc(3) d rest by blast
qed

theorem callers_errors_leave_the_hook_witness:
  "\<not> destroyed init \<and> \<not> mounted init \<and> cleanup init = None \<and>
   (\<forall>arg v. snd (effect_throw arg v) = Inl ''boom'') \<and>
   fst (step True (Render effect_throw None) init) = Some (Thrown ''boom'') \<and>
   fst (useAbortableEffect True effect_throw None init) = Inl (Thrown ''boom'') \<and>
   fst (run True run_cleanup_throw init) = None \<and>
   \<not> destroyed (snd (run True run_cleanup_throw init)) \<and>
   cleanup (snd (run True run_cleanup_throw init)) = Some (CustomCleanup cleanup_throw 0) \<and>
   snd (cleanup_throw (ControllerObj 0) (view_of (snd (run True run_cleanup_throw init)))) =
     Some ''bang'' \<and>
   fst (step True Unmount (snd (run True run_cleanup_throw init))) = Some (Thrown ''bang'') \<and>
   depsChanged (lastDeps (snd (run True run_cleanup_throw init))) (deps_b 2) \<and>
   fst (step True (Render effect_nothing (deps_b 2)) (snd (run True run_cleanup_throw init))) =
     Some (Thrown ''bang'') \<and>
   fst (step True (Render effect_nothing None) init) = None"
proof -
  have r: "run True run_cleanup_throw init = (None, snd (run True run_cleanup_throw init))"
    by (simp add: run_cleanup_throw_result)
  note at_init = callers_errors_leave_the_hook [OF run_nil_init]
  note at_c = callers_errors_leave_the_hook [OF r]
  have h: "\<not> mounted init \<or> depsChanged (lastDeps init) None"
    "\<forall>g h. cleanup init = Some (CustomCleanup g h) \<longrightarrow>
       snd (g (ControllerObj h) (view_of init)) = None"
    "\<forall>v. snd (effect_throw (SignalObj (length (heap init))) v) = Inl ''boom''"
    by (simp_all add: init_def effect_throw_def)
  have nd: "\<not> destroyed init" by (simp add: init_def)
  have boom: "fst (step True (Render effect_throw None) init) = Some (Thrown ''boom'')"
    using at_init [THEN conjunct2, THEN conjunct2, rule_format, OF conjI [OF refl nd],
        THEN conjunct1, rule_format, where effect = effect_throw and ds = None
          and msg = "''boom''", OF conjI [OF h(1) conjI [OF h(2) h(3)]], THEN conjunct1] .
  have ev: ?thesis
    unfolding run_cleanup_throw_result snd_conv fst_conv
    by (simp add: init_def model_defs)
  from boom at_c show ?thesis
    by - (rule ev)
qed

section \<open>C10: the handle a teardown works on\<close>

text \<open>
  C10. One call of the function passed to \<^verbatim>\<open>useEffect\<close> that returns a teardown \<open>td\<close>.
  The effect function was called with the signal of a handle \<open>h\<close>, and \<open>td\<close> is the
  default teardown for \<open>h\<close> or a custom cleanup paired with \<open>h\<close>. Called later in any
  state \<open>w2\<close>, whatever the reference then holds: \<open>td\<close> leaves the reference objects as
  they are. The default teardown calls \<^verbatim>\<open>abort()\<close> on \<open>h\<close> (the events after the call are
  notifications), its result does not depend on the reference objects, the heap keeps its
  size and every handle other than \<open>h\<close> its state. A custom cleanup \<open>f\<close> is called with the
  handle \<open>h\<close>, and the teardown is nothing but that call.
\<close>

theorem teardown_keeps_its_own_handle:
  assumes "hooks w = [RBool b, RController c]"
    and "effect_callback native 0 1 effect w = (Inr td, w')"
  shows
   "\<exists>h. activations (trace w') = activations (trace w) @ [SignalObj h] \<and>
        (td = DefaultCleanup h \<or> (\<exists>f. td = CustomCleanup f h)) \<and>
        (\<forall>w2 hs.
           hooks (snd (teardown_call td w2)) = hooks w2 \<and>
           (td = DefaultCleanup h \<longrightarrow>
              teardown_call td (w2\<lparr>hooks := hs\<rparr>) =
                (None, (snd (teardown_call td w2))\<lparr>hooks := hs\<rparr>) \<and>
              length (heap (snd (teardown_call td w2))) = length (heap w2) \<and>
              (\<forall>k. k \<noteq> h \<longrightarrow> heap (snd (teardown_call td w2)) ! k = heap w2 ! k) \<and>
              (\<exists>evs. trace (snd (teardown_call td w2)) = trace w2 @ AbortCall Binder h # evs \<and>
                 list_all notified evs)) \<and>
           (\<forall>f. td = CustomCleanup f h \<longrightarrow>
              teardown_call td (w2\<lparr>hooks := hs\<rparr>) =
                (map_option Thrown (snd (f (ControllerObj h) (heap w2, hs))),
                 run_uops (fst (f (ControllerObj h) (heap w2, hs)))
                   (log (CleanupCall f (ControllerObj h)) (w2\<lparr>hooks := hs\<rparr>)))))"
proof -
  obtain h v where res: "Inr td = registered h (snd (effect (SignalObj h) v))"
    and a: "activations (trace w') = activations (trace w) @ [SignalObj h]"
    using callback_shape [OF assms] by blast
  have th: "td_handle td = h"
    using registered_cases [of h "snd (effect (SignalObj h) v)"] res by auto
  have kinds: "td = DefaultCleanup h \<or> (\<exists>f. td = CustomCleanup f h)"
    using td_handle_cases [of td] th by simp
  have hk: "hooks (snd (teardown_call td w2)) = hooks w2" for w2
  proof -
    obtain r wt where t: "teardown_call td w2 = (r, wt)"
      by (cases "teardown_call td w2")
    show ?thesis
      using teardown_call_changed(1) [OF t] t by (simp add: user_changed_def log_def)
  qed
  have D: "teardown_call td (w2\<lparr>hooks := hs\<rparr>) =
                (None, (snd (teardown_call td w2))\<lparr>hooks := hs\<rparr>) \<and>
              length (heap (snd (teardown_call td w2))) = length (heap w2) \<and>
              (\<forall>k. k \<noteq> h \<longrightarrow> heap (snd (teardown_call td w2)) ! k = heap w2 ! k) \<and>
              (\<exists>evs. trace (snd (teardown_call td w2)) = trace w2 @ AbortCall Binder h # evs \<and>
                 list_all notified evs)"
    if "td = DefaultCleanup h" for w2 hs
  proof -
    have l: "log e (w2\<lparr>hooks := hs\<rparr>) = (log e w2)\<lparr>hooks := hs\<rparr>" for e
      by (simp add: log_def)
    obtain evs where "trace (abort h (log (AbortCall Binder h) w2)) =
        trace (log (AbortCall Binder h) w2) @ evs" "list_all notified evs"
      using abort_trace by blast
    then have "\<exists>evs. trace (abort h (log (AbortCall Binder h) w2)) =
        trace w2 @ AbortCall Binder h # evs \<and> list_all notified evs"
      by (simp add: log_def)
    then show ?thesis
      using that by (simp add: l abort_frame) (simp add: log_def)
  qed
  have C: "teardown_call td (w2\<lparr>hooks := hs\<rparr>) =
                (map_option Thrown (snd (f (ControllerObj h) (heap w2, hs))),
                 run_uops (fst (f (ControllerObj h) (heap w2, hs)))
                   (log (CleanupCall f (ControllerObj h)) (w2\<lparr>hooks := hs\<rparr>)))"
    if "td = CustomCleanup f h" for w2 hs f
    using that by (simp add: view_of_def case_prod_beta)
  show ?thesis
    using a kinds hk D C by blast
qed

theorem teardown_keeps_its_own_handle_witness:
  "hooks (rendered True init) = [RBool True, RController 0] \<and>
   fst (effect_callback True 0 1 effect_nothing (rendered True init)) =
     Inr (DefaultCleanup 0) \<and>
   activations (trace (snd (effect_callback True 0 1 effect_nothing (rendered True init)))) =
     [SignalObj 0] \<and>
   hooks two_handles = [RBool False, RController 1] \<and>
   hooks (snd (teardown_call (DefaultCleanup 0) two_handles)) = [RBool False, RController 1] \<and>
   aborted (heap (snd (teardown_call (DefaultCleanup 0) two_handles)) ! 0) \<and>
   \<not> aborted (heap (snd (teardown_call (DefaultCleanup 0) two_handles)) ! 1) \<and>
   trace (snd (teardown_call (DefaultCleanup 0) two_handles)) =
     trace two_handles @ [AbortCall Binder 0] \<and>
   fst (effect_callback True 0 1 effect_custom (rendered True init)) =
     Inr (CustomCleanup cleanup_abort 0) \<and>
   trace (snd (teardown_call (CustomCleanup cleanup_abort 0) two_handles)) =
     trace two_handles @ [CleanupCall cleanup_abort (ControllerObj 0), AbortCall User 0]"
proof -
  have hk: "hooks (rendered True init) = [RBool True, RController 0]"
    by (simp add: rendered_init)
  have e: "effect_callback True 0 1 effect_nothing (rendered True init) =
      (Inr (DefaultCleanup 0), snd (effect_callback True 0 1 effect_nothing (rendered True init)))"
    unfolding rendered_init by (simp add: model_defs)
  have c: "effect_callback True 0 1 effect_custom (rendered True init) =
      (Inr (CustomCleanup cleanup_abort 0),
       snd (effect_callback True 0 1 effect_custom (rendered True init)))"
    unfolding rendered_init by (simp add: model_defs)
  note default_case = teardown_keeps_its_own_handle [OF hk e]
  note custom_case = teardown_keeps_its_own_handle [OF hk c]
  have ev: ?thesis
    unfolding rendered_init two_handles_result
    by (simp add: model_defs)
  from default_case custom_case show ?thesis
    by - (rule ev)
qed

end
